theory Spec2Isabelle
  imports Main "HOL-Library.Word"
begin

section \<open>Strings and byte buffers of the platform\<close>

text \<open>
  A JavaScript string is a sequence of 16-bit UTF-16 code units; a \<open>Uint8Array\<close> or
  \<open>ArrayBuffer\<close> is a sequence of 8-bit bytes. String literals of the source are written
  \<open>js ''...''\<close>.
\<close>

type_synonym codeunit = "16 word"
type_synonym jsstring = "codeunit list"
type_synonym byte = "8 word"

definition ch :: "char \<Rightarrow> codeunit" where
  "ch c = of_char c"

definition js :: "string \<Rightarrow> jsstring" where
  "js s = map ch s"

text \<open>\<open>String.prototype.replace\<close> with a global one-character pattern.\<close>

definition replace_all :: "codeunit \<Rightarrow> jsstring \<Rightarrow> jsstring \<Rightarrow> jsstring" where
  "replace_all c r s = concat (map (\<lambda>x. if x = c then r else [x]) s)"

text \<open>\<open>String.prototype.split\<close> with a one-character separator: the empty string splits
  into one empty part.\<close>

fun split :: "codeunit \<Rightarrow> jsstring \<Rightarrow> jsstring list" where
  "split sep [] = [[]]"
| "split sep (c # cs) =
     (if c = sep then [] # split sep cs
      else (case split sep cs of p # ps \<Rightarrow> (c # p) # ps | [] \<Rightarrow> [[c]]))"

subsection \<open>TextEncoder and TextDecoder (UTF-8)\<close>

definition is_high_surrogate :: "codeunit \<Rightarrow> bool" where
  "is_high_surrogate c \<longleftrightarrow> 0xD800 \<le> unat c \<and> unat c \<le> 0xDBFF"

definition is_low_surrogate :: "codeunit \<Rightarrow> bool" where
  "is_low_surrogate c \<longleftrightarrow> 0xDC00 \<le> unat c \<and> unat c \<le> 0xDFFF"

definition lone_unit :: "codeunit \<Rightarrow> nat" where
  "lone_unit c = (if is_high_surrogate c \<or> is_low_surrogate c then 0xFFFD else unat c)"

text \<open>The code points of a string; an unpaired surrogate reads as U+FFFD, as the
  encoder's conversion to scalar values does.\<close>

fun code_points :: "jsstring \<Rightarrow> nat list" where
  "code_points [] = []"
| "code_points [c] = [lone_unit c]"
| "code_points (c # d # cs) =
     (if is_high_surrogate c \<and> is_low_surrogate d
      then (0x10000 + (unat c - 0xD800) * 0x400 + (unat d - 0xDC00)) # code_points cs
      else lone_unit c # code_points (d # cs))"

definition utf8_bytes :: "nat \<Rightarrow> byte list" where
  "utf8_bytes cp =
     (if cp < 0x80 then [of_nat cp]
      else if cp < 0x800 then [of_nat (0xC0 + cp div 0x40), of_nat (0x80 + cp mod 0x40)]
      else if cp < 0x10000 then
        [of_nat (0xE0 + cp div 0x1000), of_nat (0x80 + cp div 0x40 mod 0x40),
         of_nat (0x80 + cp mod 0x40)]
      else
        [of_nat (0xF0 + cp div 0x40000), of_nat (0x80 + cp div 0x1000 mod 0x40),
         of_nat (0x80 + cp div 0x40 mod 0x40), of_nat (0x80 + cp mod 0x40)])"

definition TextEncoder_encode :: "jsstring \<Rightarrow> byte list" where
  "TextEncoder_encode s = concat (map utf8_bytes (code_points s))"

definition in_range :: "nat \<Rightarrow> nat \<Rightarrow> byte \<Rightarrow> bool" where
  "in_range lo hi b \<longleftrightarrow> lo \<le> unat b \<and> unat b \<le> hi"

definition tail_bits :: "byte \<Rightarrow> nat" where
  "tail_bits b = unat b - 0x80"

text \<open>The decoder never fails: a malformed sequence gives U+FFFD and decoding resumes at
  the byte that broke it.\<close>

fun utf8_decode :: "byte list \<Rightarrow> nat list" where
  "utf8_decode [] = []"
| "utf8_decode (b # bs) =
     (if unat b < 0x80 then unat b # utf8_decode bs
      else if in_range 0xC2 0xDF b then
        (case bs of
           [] \<Rightarrow> [0xFFFD]
         | b1 # r1 \<Rightarrow>
             if in_range 0x80 0xBF b1
             then ((unat b - 0xC0) * 0x40 + tail_bits b1) # utf8_decode r1
             else 0xFFFD # utf8_decode bs)
      else if in_range 0xE0 0xEF b then
        (case bs of
           [] \<Rightarrow> [0xFFFD]
         | b1 # r1 \<Rightarrow>
             if in_range (if unat b = 0xE0 then 0xA0 else 0x80)
                  (if unat b = 0xED then 0x9F else 0xBF) b1
             then (case r1 of
                     [] \<Rightarrow> [0xFFFD]
                   | b2 # r2 \<Rightarrow>
                       if in_range 0x80 0xBF b2
                       then ((unat b - 0xE0) * 0x1000 + tail_bits b1 * 0x40 + tail_bits b2)
                              # utf8_decode r2
                       else 0xFFFD # utf8_decode r1)
             else 0xFFFD # utf8_decode bs)
      else if in_range 0xF0 0xF4 b then
        (case bs of
           [] \<Rightarrow> [0xFFFD]
         | b1 # r1 \<Rightarrow>
             if in_range (if unat b = 0xF0 then 0x90 else 0x80)
                  (if unat b = 0xF4 then 0x8F else 0xBF) b1
             then (case r1 of
                     [] \<Rightarrow> [0xFFFD]
                   | b2 # r2 \<Rightarrow>
                       if in_range 0x80 0xBF b2
                       then (case r2 of
                               [] \<Rightarrow> [0xFFFD]
                             | b3 # r3 \<Rightarrow>
                                 if in_range 0x80 0xBF b3
                                 then ((unat b - 0xF0) * 0x40000 + tail_bits b1 * 0x1000
                                         + tail_bits b2 * 0x40 + tail_bits b3)
                                        # utf8_decode r3
                                 else 0xFFFD # utf8_decode r2)
                       else 0xFFFD # utf8_decode r1)
             else 0xFFFD # utf8_decode bs)
      else 0xFFFD # utf8_decode bs)"

definition utf16_units :: "nat \<Rightarrow> jsstring" where
  "utf16_units cp =
     (if cp < 0x10000 then [of_nat cp]
      else [of_nat (0xD800 + (cp - 0x10000) div 0x400),
            of_nat (0xDC00 + (cp - 0x10000) mod 0x400)])"

text \<open>A leading byte order mark is dropped (\<open>ignoreBOM\<close> is false by default).\<close>

definition strip_bom :: "byte list \<Rightarrow> byte list" where
  "strip_bom bs =
     (case bs of
        a # b # c # r \<Rightarrow> if a = 0xEF \<and> b = 0xBB \<and> c = 0xBF then r else bs
      | _ \<Rightarrow> bs)"

definition TextDecoder_decode :: "byte list \<Rightarrow> jsstring" where
  "TextDecoder_decode bs = concat (map utf16_units (utf8_decode (strip_bom bs)))"

subsection \<open>Buffer: base64\<close>

definition b64_alphabet :: jsstring where
  "b64_alphabet = js ''ABCDEFGHIJKLMNOPQRSTUVWXYZabcdefghijklmnopqrstuvwxyz0123456789+/''"

definition b64_char :: "nat \<Rightarrow> codeunit" where
  "b64_char i = b64_alphabet ! (i mod 64)"

text \<open>\<open>Buffer.from(bytes).toString("base64")\<close>: the standard alphabet, padded.\<close>

fun base64_encode :: "byte list \<Rightarrow> jsstring" where
  "base64_encode [] = []"
| "base64_encode [a] =
     [b64_char (unat a div 4), b64_char (unat a mod 4 * 16), ch CHR ''='', ch CHR ''='']"
| "base64_encode [a, b] =
     [b64_char (unat a div 4), b64_char (unat a mod 4 * 16 + unat b div 16),
      b64_char (unat b mod 16 * 4), ch CHR ''='']"
| "base64_encode (a # b # c # bs) =
     [b64_char (unat a div 4), b64_char (unat a mod 4 * 16 + unat b div 16),
      b64_char (unat b mod 16 * 4 + unat c div 64), b64_char (unat c mod 64)]
     @ base64_encode bs"

definition b64_value :: "codeunit \<Rightarrow> nat option" where
  "b64_value c =
     (if 0x41 \<le> unat c \<and> unat c \<le> 0x5A then Some (unat c - 0x41)
      else if 0x61 \<le> unat c \<and> unat c \<le> 0x7A then Some (unat c - 0x61 + 26)
      else if 0x30 \<le> unat c \<and> unat c \<le> 0x39 then Some (unat c - 0x30 + 52)
      else if unat c = 0x2B \<or> unat c = 0x2D then Some 62
      else if unat c = 0x2F \<or> unat c = 0x5F then Some 63
      else None)"

fun sextets_to_bytes :: "nat list \<Rightarrow> byte list" where
  "sextets_to_bytes (a # b # c # d # r) =
     [of_nat (a * 4 + b div 16), of_nat (b mod 16 * 16 + c div 4), of_nat (c mod 4 * 64 + d)]
     @ sextets_to_bytes r"
| "sextets_to_bytes [a, b, c] = [of_nat (a * 4 + b div 16), of_nat (b mod 16 * 16 + c div 4)]"
| "sextets_to_bytes [a, b] = [of_nat (a * 4 + b div 16)]"
| "sextets_to_bytes _ = []"

text \<open>\<open>Buffer.from(s, "base64")\<close> never throws: it reads both alphabets, skips every
  other character and stops at the first \<open>=\<close>.\<close>

definition base64_decode :: "jsstring \<Rightarrow> byte list" where
  "base64_decode s =
     sextets_to_bytes (List.map_filter b64_value (takeWhile (\<lambda>c. c \<noteq> ch CHR ''='') s))"

section \<open>JSON values, JSON.stringify and JSON.parse\<close>

text \<open>
  A number \<open>JNum m d\<close> is the decimal \<open>m / 10 ^ d\<close>, kept with \<open>d = 0\<close> for an integer
  and without a trailing zero otherwise. Every JSON number literal denotes such a decimal;
  the rounding of the platform's doubles is not part of the model. The members of an
  object are kept in the order in which the platform enumerates them.
\<close>

datatype json =
    JNull
  | JBool bool
  | JNum int nat
  | JStr jsstring
  | JArr "json list"
  | JObj "(jsstring \<times> json) list"

subsection \<open>Decimal digits\<close>

fun digits_of :: "nat \<Rightarrow> nat list" where
  "digits_of n = (if n < 10 then [n] else digits_of (n div 10) @ [n mod 10])"

declare digits_of.simps [simp del]

definition nat_of_digits :: "nat list \<Rightarrow> nat" where
  "nat_of_digits ds = foldl (\<lambda>a d. a * 10 + d) 0 ds"

definition digit_char :: "nat \<Rightarrow> codeunit" where
  "digit_char d = of_nat (0x30 + d)"

definition is_digit :: "codeunit \<Rightarrow> bool" where
  "is_digit c \<longleftrightarrow> 0x30 \<le> unat c \<and> unat c \<le> 0x39"

definition digit_val :: "codeunit \<Rightarrow> nat" where
  "digit_val c = unat c - 0x30"

definition strip_zeros :: "nat list \<Rightarrow> nat list" where
  "strip_zeros ds = rev (dropWhile (\<lambda>d. d = 0) (rev ds))"

primrec reduce :: "int \<Rightarrow> nat \<Rightarrow> int \<times> nat" where
  "reduce m 0 = (m, 0)"
| "reduce m (Suc d) = (if m mod 10 = 0 then reduce (m div 10) d else (m, Suc d))"

text \<open>The value of a literal with the given sign, integer digits, fraction digits and
  exponent.\<close>

definition decimal :: "bool \<Rightarrow> nat list \<Rightarrow> nat list \<Rightarrow> int \<Rightarrow> int \<times> nat" where
  "decimal neg ids fds e =
     (let m = (if neg then - 1 else 1) * int (nat_of_digits (ids @ fds));
          sc = e - int (length fds)
      in if 0 \<le> sc then (m * 10 ^ nat sc, 0) else reduce m (nat (- sc)))"

subsection \<open>Number to string\<close>

definition exponent_part :: "int \<Rightarrow> jsstring" where
  "exponent_part e =
     ch CHR ''e'' # (if 0 \<le> e then ch CHR ''+'' else ch CHR ''-'')
       # map digit_char (digits_of (nat \<bar>e\<bar>))"

text \<open>\<open>Number.prototype.toString\<close>: with \<open>s\<close> the significant digits, \<open>k\<close> their count
  and \<open>n\<close> the position of the decimal point.\<close>

definition number_to_string :: "int \<Rightarrow> nat \<Rightarrow> jsstring" where
  "number_to_string m d =
     (if m = 0 then js ''0''
      else
        let ds = digits_of (nat \<bar>m\<bar>);
            s = strip_zeros ds;
            k = int (length s);
            n = int (length ds) - int d;
            body =
              (if k \<le> n \<and> n \<le> 21 then
                 map digit_char s @ replicate (nat (n - k)) (ch CHR ''0'')
               else if 0 < n \<and> n \<le> 21 then
                 map digit_char (take (nat n) s) @ ch CHR ''.'' # map digit_char (drop (nat n) s)
               else if - 6 < n \<and> n \<le> 0 then
                 js ''0.'' @ replicate (nat (- n)) (ch CHR ''0'') @ map digit_char s
               else if k = 1 then map digit_char s @ exponent_part (n - 1)
               else map digit_char (take 1 s) @ ch CHR ''.'' # map digit_char (drop 1 s)
                      @ exponent_part (n - 1))
        in if m < 0 then ch CHR ''-'' # body else body)"

subsection \<open>JSON.stringify\<close>

definition hex_char :: "nat \<Rightarrow> codeunit" where
  "hex_char d = (if d < 10 then of_nat (0x30 + d) else of_nat (0x61 + (d - 10)))"

definition unicode_escape :: "codeunit \<Rightarrow> jsstring" where
  "unicode_escape c =
     [0x5C, ch CHR ''u'', hex_char (unat c div 4096), hex_char (unat c div 256 mod 16),
      hex_char (unat c div 16 mod 16), hex_char (unat c mod 16)]"

definition quote_unit :: "codeunit \<Rightarrow> jsstring" where
  "quote_unit c =
     (if c = 0x08 then [0x5C, ch CHR ''b'']
      else if c = 0x09 then [0x5C, ch CHR ''t'']
      else if c = 0x0A then [0x5C, ch CHR ''n'']
      else if c = 0x0C then [0x5C, ch CHR ''f'']
      else if c = 0x0D then [0x5C, ch CHR ''r'']
      else if c = 0x22 then [0x5C, 0x22]
      else if c = 0x5C then [0x5C, 0x5C]
      else if unat c < 0x20 \<or> is_high_surrogate c \<or> is_low_surrogate c then unicode_escape c
      else [c])"

fun quote_chars :: "jsstring \<Rightarrow> jsstring" where
  "quote_chars [] = []"
| "quote_chars [c] = quote_unit c"
| "quote_chars (c # d # cs) =
     (if is_high_surrogate c \<and> is_low_surrogate d then c # d # quote_chars cs
      else quote_unit c @ quote_chars (d # cs))"

definition quote_json :: "jsstring \<Rightarrow> jsstring" where
  "quote_json s = 0x22 # quote_chars s @ [0x22]"

fun join_commas :: "jsstring list \<Rightarrow> jsstring" where
  "join_commas [] = []"
| "join_commas [x] = x"
| "join_commas (x # y # r) = x @ ch CHR '','' # join_commas (y # r)"

fun JSON_stringify :: "json \<Rightarrow> jsstring" where
  "JSON_stringify JNull = js ''null''"
| "JSON_stringify (JBool b) = (if b then js ''true'' else js ''false'')"
| "JSON_stringify (JNum m d) = number_to_string m d"
| "JSON_stringify (JStr s) = quote_json s"
| "JSON_stringify (JArr xs) =
     ch CHR ''['' # join_commas (map JSON_stringify xs) @ [ch CHR '']'']"
| "JSON_stringify (JObj kvs) =
     ch CHR ''{''
       # join_commas (map (\<lambda>kv. quote_json (fst kv) @ ch CHR '':'' # JSON_stringify (snd kv)) kvs)
       @ [ch CHR ''}'']"

subsection \<open>JSON.parse: tokens\<close>

datatype tok =
    TLBrace | TRBrace | TLBrack | TRBrack | TColon | TComma
  | TStr jsstring | TNum int nat | TTrue | TFalse | TNull

definition is_ws :: "codeunit \<Rightarrow> bool" where
  "is_ws c \<longleftrightarrow> c = 0x20 \<or> c = 0x09 \<or> c = 0x0A \<or> c = 0x0D"

definition hex_val :: "codeunit \<Rightarrow> nat option" where
  "hex_val c =
     (if 0x30 \<le> unat c \<and> unat c \<le> 0x39 then Some (unat c - 0x30)
      else if 0x61 \<le> unat c \<and> unat c \<le> 0x66 then Some (unat c - 0x61 + 10)
      else if 0x41 \<le> unat c \<and> unat c \<le> 0x46 then Some (unat c - 0x41 + 10)
      else None)"

definition unescape :: "codeunit \<Rightarrow> codeunit option" where
  "unescape e =
     (if e = 0x22 then Some 0x22
      else if e = 0x5C then Some 0x5C
      else if e = ch CHR ''/'' then Some (ch CHR ''/'')
      else if e = ch CHR ''b'' then Some 0x08
      else if e = ch CHR ''f'' then Some 0x0C
      else if e = ch CHR ''n'' then Some 0x0A
      else if e = ch CHR ''r'' then Some 0x0D
      else if e = ch CHR ''t'' then Some 0x09
      else None)"

definition hex4 :: "codeunit \<Rightarrow> codeunit \<Rightarrow> codeunit \<Rightarrow> codeunit \<Rightarrow> codeunit option" where
  "hex4 h1 h2 h3 h4 =
     (case (hex_val h1, hex_val h2, hex_val h3, hex_val h4) of
        (Some a, Some b, Some c, Some d) \<Rightarrow> Some (of_nat (((a * 16 + b) * 16 + c) * 16 + d))
      | _ \<Rightarrow> None)"

definition cons_fst :: "'a \<Rightarrow> ('a list \<times> 'b) option \<Rightarrow> ('a list \<times> 'b) option" where
  "cons_fst x r = map_option (\<lambda>p. (x # fst p, snd p)) r"

text \<open>The characters of a string literal after its opening quote, and the text after its
  closing quote.\<close>

fun scan_string :: "jsstring \<Rightarrow> (jsstring \<times> jsstring) option" where
  "scan_string [] = None"
| "scan_string (c # cs) =
     (if c = 0x22 then Some ([], cs)
      else if c = 0x5C then
        (case cs of
           [] \<Rightarrow> None
         | e # r \<Rightarrow>
             if e = ch CHR ''u'' then
               (case r of
                  h1 # h2 # h3 # h4 # r' \<Rightarrow>
                    (case hex4 h1 h2 h3 h4 of
                       None \<Rightarrow> None
                     | Some u \<Rightarrow> cons_fst u (scan_string r'))
                | _ \<Rightarrow> None)
             else
               (case unescape e of
                  None \<Rightarrow> None
                | Some u \<Rightarrow> cons_fst u (scan_string r)))
      else if unat c < 0x20 then None
      else cons_fst c (scan_string cs))"

definition digit_vals :: "jsstring \<Rightarrow> nat list" where
  "digit_vals s = map digit_val s"

text \<open>A fraction is a point followed by at least one digit.\<close>

definition scan_fraction :: "jsstring \<Rightarrow> nat list \<times> jsstring" where
  "scan_fraction s =
     (case s of
        c # r \<Rightarrow>
          if c = ch CHR ''.'' \<and> takeWhile is_digit r \<noteq> []
          then (digit_vals (takeWhile is_digit r), dropWhile is_digit r)
          else ([], s)
      | [] \<Rightarrow> ([], s))"

definition scan_signed_digits :: "jsstring \<Rightarrow> (int \<times> jsstring) option" where
  "scan_signed_digits s =
     (let neg = (case s of c # _ \<Rightarrow> c = ch CHR ''-'' | [] \<Rightarrow> False);
          sgn = (case s of c # _ \<Rightarrow> c = ch CHR ''-'' \<or> c = ch CHR ''+'' | [] \<Rightarrow> False);
          r = (if sgn then drop 1 s else s);
          ds = takeWhile is_digit r
      in if ds = [] then None
         else Some ((if neg then - 1 else 1) * int (nat_of_digits (digit_vals ds)),
                    dropWhile is_digit r))"

text \<open>An exponent is \<open>e\<close> or \<open>E\<close>, an optional sign and at least one digit.\<close>

definition scan_exponent :: "jsstring \<Rightarrow> int \<times> jsstring" where
  "scan_exponent s =
     (case s of
        c # r \<Rightarrow>
          if c = ch CHR ''e'' \<or> c = ch CHR ''E'' then
            (case scan_signed_digits r of None \<Rightarrow> (0, s) | Some (e, rest) \<Rightarrow> (e, rest))
          else (0, s)
      | [] \<Rightarrow> (0, s))"

text \<open>A JSON number: an optional minus, an integer part without a superfluous leading
  zero, an optional fraction and an optional exponent.\<close>

definition scan_number :: "jsstring \<Rightarrow> ((int \<times> nat) \<times> jsstring) option" where
  "scan_number s =
     (let neg = (case s of c # _ \<Rightarrow> c = ch CHR ''-'' | [] \<Rightarrow> False);
          s1 = (if neg then drop 1 s else s);
          ids = takeWhile is_digit s1
      in if ids = [] \<or> (1 < length ids \<and> take 1 ids = js ''0'') then None
         else
           let (fds, s2) = scan_fraction (dropWhile is_digit s1);
               (e, s3) = scan_exponent s2
           in Some (decimal neg (digit_vals ids) fds e, s3))"

fun tokenise :: "jsstring \<Rightarrow> tok list option" where
  "tokenise [] = Some []"
| "tokenise (c # cs) =
     (if is_ws c then tokenise cs
      else if c = ch CHR ''{'' then map_option ((#) TLBrace) (tokenise cs)
      else if c = ch CHR ''}'' then map_option ((#) TRBrace) (tokenise cs)
      else if c = ch CHR ''['' then map_option ((#) TLBrack) (tokenise cs)
      else if c = ch CHR '']'' then map_option ((#) TRBrack) (tokenise cs)
      else if c = ch CHR '':'' then map_option ((#) TColon) (tokenise cs)
      else if c = ch CHR '','' then map_option ((#) TComma) (tokenise cs)
      else if c = 0x22 then
        (case scan_string cs of
           None \<Rightarrow> None
         | Some (s, rest) \<Rightarrow>
             if length rest \<le> length cs then map_option ((#) (TStr s)) (tokenise rest)
             else None)
      else if c = ch CHR ''-'' \<or> is_digit c then
        (case scan_number (c # cs) of
           None \<Rightarrow> None
         | Some ((m, d), rest) \<Rightarrow>
             if length rest \<le> length cs then map_option ((#) (TNum m d)) (tokenise rest)
             else None)
      else if take 4 (c # cs) = js ''true'' then map_option ((#) TTrue) (tokenise (drop 3 cs))
      else if take 5 (c # cs) = js ''false'' then map_option ((#) TFalse) (tokenise (drop 4 cs))
      else if take 4 (c # cs) = js ''null'' then map_option ((#) TNull) (tokenise (drop 3 cs))
      else None)"

subsection \<open>JSON.parse: values\<close>

text \<open>An array index is the canonical decimal string of an integer below \<open>2^32 - 1\<close>.\<close>

definition array_index :: "jsstring \<Rightarrow> nat option" where
  "array_index k =
     (if k \<noteq> [] \<and> list_all is_digit k \<and> (length k = 1 \<or> take 1 k \<noteq> js ''0'')
         \<and> nat_of_digits (digit_vals k) < 4294967295
      then Some (nat_of_digits (digit_vals k)) else None)"

fun insert_index :: "nat \<Rightarrow> jsstring \<Rightarrow> json \<Rightarrow> (jsstring \<times> json) list \<Rightarrow> (jsstring \<times> json) list" where
  "insert_index i k v [] = [(k, v)]"
| "insert_index i k v ((k', v') # r) =
     (case array_index k' of
        None \<Rightarrow> (k, v) # (k', v') # r
      | Some j \<Rightarrow> if j < i then (k', v') # insert_index i k v r else (k, v) # (k', v') # r)"

text \<open>Defining a member of an object: a key already present keeps its place and takes the
  new value; a new array index goes among the indices in ascending order, which come
  first; any other new key goes last.\<close>

definition obj_define :: "(jsstring \<times> json) list \<Rightarrow> jsstring \<Rightarrow> json \<Rightarrow> (jsstring \<times> json) list" where
  "obj_define kvs k v =
     (if k \<in> set (map fst kvs) then map (\<lambda>kv. if fst kv = k then (k, v) else kv) kvs
      else (case array_index k of None \<Rightarrow> kvs @ [(k, v)] | Some i \<Rightarrow> insert_index i k v kvs))"

datatype ctx = CArr "json list" | CObj "(jsstring \<times> json) list" jsstring

text \<open>\<open>parse_value\<close> expects a value, \<open>after_value\<close> has read one inside the open arrays
  and objects of the stack, \<open>parse_member\<close> expects a key and a colon.\<close>

fun parse_value :: "ctx list \<Rightarrow> tok list \<Rightarrow> json option"
  and after_value :: "json \<Rightarrow> ctx list \<Rightarrow> tok list \<Rightarrow> json option"
  and parse_member :: "(jsstring \<times> json) list \<Rightarrow> ctx list \<Rightarrow> tok list \<Rightarrow> json option"
where
  "parse_value stk [] = None"
| "parse_value stk (TNull # ts) = after_value JNull stk ts"
| "parse_value stk (TTrue # ts) = after_value (JBool True) stk ts"
| "parse_value stk (TFalse # ts) = after_value (JBool False) stk ts"
| "parse_value stk (TNum m d # ts) = after_value (JNum m d) stk ts"
| "parse_value stk (TStr s # ts) = after_value (JStr s) stk ts"
| "parse_value stk (TLBrack # TRBrack # ts) = after_value (JArr []) stk ts"
| "parse_value stk (TLBrack # ts) = parse_value (CArr [] # stk) ts"
| "parse_value stk (TLBrace # TRBrace # ts) = after_value (JObj []) stk ts"
| "parse_value stk (TLBrace # ts) = parse_member [] (stk) ts"
| "parse_value stk (_ # ts) = None"
| "after_value v [] ts = (if ts = [] then Some v else None)"
| "after_value v (CArr acc # stk) (TComma # ts) = parse_value (CArr (v # acc) # stk) ts"
| "after_value v (CArr acc # stk) (TRBrack # ts) = after_value (JArr (rev (v # acc))) stk ts"
| "after_value v (CObj kvs k # stk) (TComma # ts) = parse_member (obj_define kvs k v) stk ts"
| "after_value v (CObj kvs k # stk) (TRBrace # ts) =
     after_value (JObj (obj_define kvs k v)) stk ts"
| "after_value v _ _ = None"
| "parse_member kvs stk (TStr k # TColon # ts) = parse_value (CObj kvs k # stk) ts"
| "parse_member kvs stk _ = None"

text \<open>\<open>JSON.parse\<close>; \<open>None\<close> is the \<open>SyntaxError\<close> it throws.\<close>

definition JSON_parse :: "jsstring \<Rightarrow> json option" where
  "JSON_parse s = (case tokenise s of None \<Rightarrow> None | Some ts \<Rightarrow> parse_value [] ts)"

section \<open>The operators of the language on JSON values\<close>

text \<open>The result of a numeric conversion: a decimal, or one of the three values that are
  not decimals.\<close>

datatype jsnum = Fin int nat | NaN | PosInf | NegInf

text \<open>\<open>!v\<close> is \<open>\<not> truthy v\<close>.\<close>

fun truthy :: "json \<Rightarrow> bool" where
  "truthy JNull = False"
| "truthy (JBool b) = b"
| "truthy (JNum m d) = (m \<noteq> 0)"
| "truthy (JStr s) = (s \<noteq> [])"
| "truthy (JArr xs) = True"
| "truthy (JObj kvs) = True"

text \<open>\<open>v.k\<close> for the names the program reads (\<open>user\<close>, \<open>expires\<close>, \<open>name\<close>): a member of
  an object, \<open>None\<close> (undefined) on an object without it and on every other value, whose
  prototypes do not define these names.\<close>

fun get_prop :: "json \<Rightarrow> jsstring \<Rightarrow> json option" where
  "get_prop (JObj kvs) k = map_of kvs k"
| "get_prop _ k = None"

definition is_str_ws :: "codeunit \<Rightarrow> bool" where
  "is_str_ws c \<longleftrightarrow>
     c \<in> set [0x09, 0x0A, 0x0B, 0x0C, 0x0D, 0x20, 0xA0, 0x1680, 0x2028, 0x2029, 0x202F,
              0x205F, 0x3000, 0xFEFF]
     \<or> (0x2000 \<le> unat c \<and> unat c \<le> 0x200A)"

definition trim :: "jsstring \<Rightarrow> jsstring" where
  "trim s = rev (dropWhile is_str_ws (rev (dropWhile is_str_ws s)))"

definition radix_digit :: "nat \<Rightarrow> codeunit \<Rightarrow> bool" where
  "radix_digit r c = (case hex_val c of None \<Rightarrow> False | Some v \<Rightarrow> v < r)"

definition radix_literal :: "nat \<Rightarrow> jsstring \<Rightarrow> jsnum" where
  "radix_literal r s =
     (if s \<noteq> [] \<and> list_all (radix_digit r) s
      then Fin (int (foldl (\<lambda>a c. a * r + (case hex_val c of None \<Rightarrow> 0 | Some v \<Rightarrow> v)) 0 s)) 0
      else NaN)"

text \<open>A decimal literal of a string: a sign, then \<open>Infinity\<close> or digits with an optional
  point and an optional exponent, where the digits may be missing on one side of the
  point.\<close>

definition str_decimal :: "jsstring \<Rightarrow> jsnum" where
  "str_decimal s =
     (let neg = (case s of c # _ \<Rightarrow> c = ch CHR ''-'' | [] \<Rightarrow> False);
          sgn = (case s of c # _ \<Rightarrow> c = ch CHR ''-'' \<or> c = ch CHR ''+'' | [] \<Rightarrow> False);
          r = (if sgn then drop 1 s else s)
      in if r = js ''Infinity'' then (if neg then NegInf else PosInf)
         else
           let ids = takeWhile is_digit r;
               r1 = dropWhile is_digit r;
               pt = (case r1 of c # _ \<Rightarrow> c = ch CHR ''.'' | [] \<Rightarrow> False);
               fds = (if pt then takeWhile is_digit (drop 1 r1) else []);
               r2 = (if pt then dropWhile is_digit (drop 1 r1) else r1)
           in if ids = [] \<and> fds = [] then NaN
              else if r2 = [] then
                (case decimal neg (digit_vals ids) (digit_vals fds) 0 of (m, d) \<Rightarrow> Fin m d)
              else if take 1 r2 = js ''e'' \<or> take 1 r2 = js ''E'' then
                (case scan_signed_digits (drop 1 r2) of
                   Some (e, []) \<Rightarrow>
                     (case decimal neg (digit_vals ids) (digit_vals fds) e of (m, d) \<Rightarrow> Fin m d)
                 | _ \<Rightarrow> NaN)
              else NaN)"

text \<open>The conversion of a string to a number.\<close>

definition string_to_number :: "jsstring \<Rightarrow> jsnum" where
  "string_to_number s =
     (let t = trim s
      in if t = [] then Fin 0 0
         else if take 2 t = js ''0x'' \<or> take 2 t = js ''0X'' then radix_literal 16 (drop 2 t)
         else if take 2 t = js ''0o'' \<or> take 2 t = js ''0O'' then radix_literal 8 (drop 2 t)
         else if take 2 t = js ''0b'' \<or> take 2 t = js ''0B'' then radix_literal 2 (drop 2 t)
         else str_decimal t)"

text \<open>The conversion of a value to a string; an array joins its elements with commas,
  with nothing for a \<open>null\<close> element.\<close>

fun to_string :: "json \<Rightarrow> jsstring" where
  "to_string JNull = js ''null''"
| "to_string (JBool b) = (if b then js ''true'' else js ''false'')"
| "to_string (JNum m d) = number_to_string m d"
| "to_string (JStr s) = s"
| "to_string (JArr xs) = join_commas (map (\<lambda>x. if x = JNull then [] else to_string x) xs)"
| "to_string (JObj kvs) = js ''[object Object]''"

text \<open>The conversion of a property read to a number; \<open>None\<close> is \<open>undefined\<close>.\<close>

fun to_number :: "json option \<Rightarrow> jsnum" where
  "to_number None = NaN"
| "to_number (Some JNull) = Fin 0 0"
| "to_number (Some (JBool b)) = Fin (if b then 1 else 0) 0"
| "to_number (Some (JNum m d)) = Fin m d"
| "to_number (Some (JStr s)) = string_to_number s"
| "to_number (Some (JArr xs)) = string_to_number (to_string (JArr xs))"
| "to_number (Some (JObj kvs)) = NaN"

text \<open>\<open>x < n\<close> and \<open>x - n\<close> for an integer \<open>n\<close>, a reading of the clock or a constant.\<close>

fun num_less :: "jsnum \<Rightarrow> int \<Rightarrow> bool" where
  "num_less (Fin m d) n = (m < n * 10 ^ d)"
| "num_less NegInf n = True"
| "num_less _ n = False"

fun num_minus :: "jsnum \<Rightarrow> int \<Rightarrow> jsnum" where
  "num_minus (Fin m d) n = (case reduce (m - n * 10 ^ d) d of (m', d') \<Rightarrow> Fin m' d')"
| "num_minus x n = x"

text \<open>The own enumerable members that an object spread copies.\<close>

fun spread :: "json \<Rightarrow> (jsstring \<times> json) list" where
  "spread (JObj kvs) = kvs"
| "spread (JArr xs) = zip (map (\<lambda>i. map digit_char (digits_of i)) [0 ..< length xs]) xs"
| "spread (JStr s) =
     zip (map (\<lambda>i. map digit_char (digits_of i)) [0 ..< length s]) (map (\<lambda>c. JStr [c]) s)"
| "spread _ = []"

section \<open>The session library: \<open>src/lib/session.ts\<close>\<close>

text \<open>
  The environment of the process, the platform's HMAC-SHA-256 (\<open>crypto.subtle.sign\<close> with
  an imported raw key: key bytes, then message bytes) and the readings of the clock
  (\<open>Date.now()\<close>, integer milliseconds) are parameters of the functions that use them.
\<close>

record env =
  SESSION_SECRET :: "jsstring option"
  NODE_ENV :: "jsstring option"

type_synonym mac = "byte list \<Rightarrow> byte list \<Rightarrow> byte list"

definition secret :: "env \<Rightarrow> jsstring" where
  "secret e =
     (case SESSION_SECRET e of
        None \<Rightarrow> js ''dev-secret-change-me''
      | Some s \<Rightarrow> if s = [] then js ''dev-secret-change-me'' else s)"

datatype b64_input = Buf "byte list" | Str jsstring

definition b64url :: "b64_input \<Rightarrow> jsstring" where
  "b64url input =
     (let bytes = (case input of Str s \<Rightarrow> TextEncoder_encode s | Buf b \<Rightarrow> b);
          str = base64_encode bytes
      in replace_all (ch CHR ''/'') (js ''_'')
           (replace_all (ch CHR ''+'') (js ''-'') (replace_all (ch CHR ''='') [] str)))"

definition b64urlDecode :: "jsstring \<Rightarrow> byte list" where
  "b64urlDecode input0 =
     (let input = replace_all (ch CHR ''_'') (js ''/'') (replace_all (ch CHR ''-'') (js ''+'') input0);
          pad = (if length input mod 4 = 0 then 0 else 4 - length input mod 4);
          normalized = input @ replicate pad (ch CHR ''='')
      in base64_decode normalized)"

definition hmac :: "mac \<Rightarrow> env \<Rightarrow> jsstring \<Rightarrow> byte list" where
  "hmac sign e data = sign (TextEncoder_encode (secret e)) (TextEncoder_encode data)"

text \<open>The type \<open>SessionPayload\<close>; \<open>expires\<close> is a time in integer milliseconds since the
  epoch. \<open>payload_json\<close> is the object that the source's literals build for it.\<close>

record UserRef =
  name :: jsstring

record SessionPayload =
  user :: "UserRef option"
  expires :: int

definition user_json :: "UserRef option \<Rightarrow> json" where
  "user_json u = (case u of None \<Rightarrow> JNull | Some r \<Rightarrow> JObj [(js ''name'', JStr (name r))])"

definition payload_json :: "SessionPayload \<Rightarrow> json" where
  "payload_json p = JObj [(js ''user'', user_json (user p)), (js ''expires'', JNum (expires p) 0)]"

definition header_json :: json where
  "header_json = JObj [(js ''alg'', JStr (js ''HS256'')), (js ''typ'', JStr (js ''JWT''))]"

definition encrypt :: "mac \<Rightarrow> env \<Rightarrow> json \<Rightarrow> jsstring" where
  "encrypt sign e payload =
     (let encHeader = b64url (Str (JSON_stringify header_json));
          encPayload = b64url (Str (JSON_stringify payload));
          toSign = encHeader @ js ''.'' @ encPayload;
          sig = hmac sign e toSign;
          encSig = b64url (Buf sig)
      in encHeader @ js ''.'' @ encPayload @ js ''.'' @ encSig)"

text \<open>\<open>decrypt\<close> returns \<open>JNull\<close> for \<open>null\<close>; the \<open>SyntaxError\<close> of \<open>JSON.parse\<close> is the
  only exception its \<open>try\<close> block can catch here.\<close>

definition decrypt :: "mac \<Rightarrow> env \<Rightarrow> jsstring \<Rightarrow> json" where
  "decrypt sign e token =
     (case split (ch CHR ''.'') token of
        [encHeader, encPayload, encSig] \<Rightarrow>
          (let toSign = encHeader @ js ''.'' @ encPayload;
               expected = hmac sign e toSign;
               expectedStr = b64url (Buf expected)
           in if expectedStr \<noteq> encSig then JNull
              else
                (let payloadBytes = b64urlDecode encPayload
                 in case JSON_parse (TextDecoder_decode payloadBytes) of
                      None \<Rightarrow> JNull
                    | Some payload \<Rightarrow> payload))
      | _ \<Rightarrow> JNull)"

subsection \<open>Cookies\<close>

record cookie =
  cvalue :: jsstring
  httpOnly :: bool
  path :: jsstring
  sameSite :: jsstring
  secure :: bool
  maxAge :: nat

type_synonym cookies = "jsstring \<rightharpoonup> cookie"

text \<open>\<open>store.get(n)?.value\<close>\<close>

definition cookie_value :: "cookies \<Rightarrow> jsstring \<Rightarrow> jsstring option" where
  "cookie_value jar n = map_option cvalue (jar n)"

definition SESSION_COOKIE :: jsstring where
  "SESSION_COOKIE = js ''session''"

definition production :: "env \<Rightarrow> bool" where
  "production e \<longleftrightarrow> NODE_ENV e = Some (js ''production'')"

definition session_cookie :: "env \<Rightarrow> jsstring \<Rightarrow> cookie" where
  "session_cookie e token =
     \<lparr>cvalue = token, httpOnly = True, path = js ''/'', sameSite = js ''lax'',
      secure = production e, maxAge = 10 * 60\<rparr>"

subsection \<open>The session operations\<close>

definition shortExpiry :: "int \<Rightarrow> int \<Rightarrow> int" where
  "shortExpiry now msFromNow = now + msFromNow"

definition getSession :: "mac \<Rightarrow> env \<Rightarrow> cookies \<Rightarrow> int \<Rightarrow> json" where
  "getSession sign e cookieStore now =
     (case cookie_value cookieStore SESSION_COOKIE of
        None \<Rightarrow> JNull
      | Some token \<Rightarrow>
          if token = [] then JNull
          else
            (let payload = decrypt sign e token
             in if \<not> truthy payload then JNull
                else if num_less (to_number (get_prop payload (js ''expires''))) now then JNull
                else payload))"

record NextResponse =
  res_cookies :: cookies

definition next_response :: NextResponse where
  "next_response = \<lparr>res_cookies = Map.empty\<rparr>"

text \<open>\<open>updateSession\<close> reads the clock twice: \<open>now\<close> for the remaining time and \<open>now'\<close>
  inside \<open>shortExpiry\<close>. \<open>None\<close> is the return without a response.\<close>

definition updateSession :: "mac \<Rightarrow> env \<Rightarrow> cookies \<Rightarrow> int \<Rightarrow> int \<Rightarrow> NextResponse option" where
  "updateSession sign e req_cookies now now' =
     (case cookie_value req_cookies SESSION_COOKIE of
        None \<Rightarrow> None
      | Some token \<Rightarrow>
          if token = [] then None
          else
            (let payload = decrypt sign e token
             in if \<not> truthy payload then None
                else
                  (let remaining = num_minus (to_number (get_prop payload (js ''expires''))) now
                   in if num_less remaining (2 * 60 * 1000) then
                        (let refreshed =
                               JObj (obj_define (spread payload) (js ''expires'')
                                       (JNum (shortExpiry now' (10 * 60 * 1000)) 0));
                             newToken = encrypt sign e refreshed;
                             res = next_response
                         in Some (res\<lparr>res_cookies :=
                                    (res_cookies res)(SESSION_COOKIE \<mapsto> session_cookie e newToken)\<rparr>))
                      else None)))"

text \<open>An entry of a \<open>FormData\<close> is a string or a file; \<open>String(fd.get(k) || "")\<close>.\<close>

datatype form_entry = FText jsstring | FFile

type_synonym form_data = "jsstring \<rightharpoonup> form_entry"

definition form_string :: "form_data \<Rightarrow> jsstring \<Rightarrow> jsstring" where
  "form_string fd k =
     (case fd k of
        None \<Rightarrow> []
      | Some (FText s) \<Rightarrow> s
      | Some FFile \<Rightarrow> js ''[object File]'')"

datatype js_error = Error string

definition login :: "mac \<Rightarrow> env \<Rightarrow> form_data \<Rightarrow> int \<Rightarrow> cookies \<Rightarrow> js_error + cookies" where
  "login sign e formData now cookieStore =
     (let username = form_string formData (js ''username'');
          password = form_string formData (js ''password'')
      in if username \<noteq> js ''admin'' \<or> password \<noteq> js ''password''
         then Inl (Error ''Invalid credentials'')
         else
           (let payload = payload_json
                            \<lparr>user = Some \<lparr>name = js ''Admin''\<rparr>,
                             expires = shortExpiry now (10 * 60 * 1000)\<rparr>;
                token = encrypt sign e payload
            in Inr (cookieStore(SESSION_COOKIE \<mapsto> session_cookie e token))))"

definition logout :: "cookies \<Rightarrow> cookies" where
  "logout cookieStore = cookieStore(SESSION_COOKIE := None)"

definition middleware :: "mac \<Rightarrow> env \<Rightarrow> cookies \<Rightarrow> int \<Rightarrow> int \<Rightarrow> NextResponse" where
  "middleware sign e req_cookies now now' =
     (case updateSession sign e req_cookies now now' of None \<Rightarrow> next_response | Some res \<Rightarrow> res)"

section \<open>The protected page: \<open>src/app/protected/page.tsx\<close>\<close>

text \<open>\<open>redirect\<close> throws, so nothing after it runs. A rendered page shows the name of the
  user and the flash items.\<close>

datatype page = Redirect jsstring | Render "json option" "jsstring list"

definition truthy_opt :: "json option \<Rightarrow> bool" where
  "truthy_opt v = (case v of None \<Rightarrow> False | Some x \<Rightarrow> truthy x)"

text \<open>\<open>!session?.user\<close>\<close>

definition no_user :: "json \<Rightarrow> bool" where
  "no_user session \<longleftrightarrow> \<not> (session \<noteq> JNull \<and> truthy_opt (get_prop session (js ''user'')))"

definition strings_of :: "json list \<Rightarrow> jsstring list" where
  "strings_of xs = concat (map (\<lambda>x. case x of JStr s \<Rightarrow> [s] | _ \<Rightarrow> []) xs)"

text \<open>The list read from the flash cookie, as both the page and its action read it.\<close>

definition flash_list :: "cookies \<Rightarrow> jsstring list" where
  "flash_list cookieStore =
     (case cookie_value cookieStore (js ''flash'') of
        None \<Rightarrow> []
      | Some raw \<Rightarrow>
          if raw = [] then []
          else
            (case JSON_parse raw of
               None \<Rightarrow> [raw]
             | Some (JArr xs) \<Rightarrow> strings_of xs
             | Some (JStr s) \<Rightarrow> [s]
             | Some _ \<Rightarrow> []))"

definition ProtectedPage :: "mac \<Rightarrow> env \<Rightarrow> cookies \<Rightarrow> int \<Rightarrow> page" where
  "ProtectedPage sign e cookieStore now =
     (let session = getSession sign e cookieStore now
      in if no_user session then Redirect (js ''/'')
         else
           (case get_prop session (js ''user'') of
              None \<Rightarrow> Render None (flash_list cookieStore)
            | Some u \<Rightarrow> Render (get_prop u (js ''name'')) (flash_list cookieStore)))"

definition flash_cookie :: "env \<Rightarrow> jsstring \<Rightarrow> cookie" where
  "flash_cookie e v =
     \<lparr>cvalue = v, httpOnly = False, path = js ''/'', sameSite = js ''lax'',
      secure = production e, maxAge = 60\<rparr>"

text \<open>\<open>saveAction\<close> takes the clock reading of its session check and the text of
  \<open>new Date().toLocaleTimeString()\<close>; it returns the cookie store and the redirect
  target.\<close>

definition saveAction :: "mac \<Rightarrow> env \<Rightarrow> cookies \<Rightarrow> int \<Rightarrow> jsstring \<Rightarrow> cookies \<times> jsstring" where
  "saveAction sign e cookieStore now time =
     (let session = getSession sign e cookieStore now
      in if no_user session then (cookieStore, js ''/'')
         else
           (let list0 = flash_list cookieStore;
                entry = js ''Saved at '' @ time;
                list1 = list0 @ [entry];
                list2 = (if 10 < length list1 then drop (length list1 - 10) list1 else list1)
            in (cookieStore(js ''flash'' \<mapsto> flash_cookie e (JSON_stringify (JArr (map JStr list2)))),
                js ''/protected'')))"

section \<open>Auxiliary definitions for the proofs\<close>

text \<open>The six-bit groups that \<open>base64_encode\<close> writes, and the characters that \<open>b64url\<close>
  and \<open>b64urlDecode\<close> put in place of one another.\<close>

fun b64_sextets :: "byte list \<Rightarrow> nat list" where
  "b64_sextets [] = []"
| "b64_sextets [a] = [unat a div 4, unat a mod 4 * 16]"
| "b64_sextets [a, b] = [unat a div 4, unat a mod 4 * 16 + unat b div 16, unat b mod 16 * 4]"
| "b64_sextets (a # b # c # bs) =
     [unat a div 4, unat a mod 4 * 16 + unat b div 16, unat b mod 16 * 4 + unat c div 64,
      unat c mod 64] @ b64_sextets bs"

definition to_url :: "codeunit \<Rightarrow> codeunit" where
  "to_url c = (if c = ch CHR ''+'' then ch CHR ''-'' else if c = ch CHR ''/'' then ch CHR ''_'' else c)"

definition from_url :: "codeunit \<Rightarrow> codeunit" where
  "from_url c = (if c = ch CHR ''-'' then ch CHR ''+'' else if c = ch CHR ''_'' then ch CHR ''/'' else c)"

definition url_char :: "nat \<Rightarrow> codeunit" where
  "url_char i = to_url (b64_char i)"

definition scalar :: "nat \<Rightarrow> bool" where
  "scalar cp \<longleftrightarrow> cp < 0x110000 \<and> \<not> (0xD800 \<le> cp \<and> cp \<le> 0xDFFF)"

fun wf16 :: "jsstring \<Rightarrow> bool" where
  "wf16 [] = True"
| "wf16 [c] = (\<not> is_high_surrogate c \<and> \<not> is_low_surrogate c)"
| "wf16 (c # d # cs) =
     (if is_high_surrogate c \<and> is_low_surrogate d then wf16 cs
      else \<not> is_high_surrogate c \<and> \<not> is_low_surrogate c \<and> wf16 (d # cs))"

definition num_end :: "jsstring \<Rightarrow> bool" where
  "num_end rest \<longleftrightarrow>
     (case rest of [] \<Rightarrow> True
      | c # _ \<Rightarrow> \<not> is_digit c \<and> c \<noteq> ch CHR ''.'' \<and> c \<noteq> ch CHR ''e'' \<and> c \<noteq> ch CHR ''E'')"

definition sign_text :: "bool \<Rightarrow> jsstring" where
  "sign_text neg = (if neg then [ch CHR ''-''] else [])"

definition plain :: "codeunit \<Rightarrow> bool" where
  "plain c \<longleftrightarrow> \<not> is_high_surrogate c \<and> \<not> is_low_surrogate c"

text \<open>Values at which theorems are instantiated: an environment without settings, and a
  function with the interface of the platform's MAC. The theorems themselves hold for
  every function of that type.\<close>

definition dev_env :: env where
  "dev_env = \<lparr>SESSION_SECRET = None, NODE_ENV = None\<rparr>"

definition toy_mac :: mac where
  "toy_mac key msg = [sum_list key, sum_list msg, of_nat (length key), of_nat (length msg)]"

section \<open>Splitting and the URL-safe base64 coding\<close>

lemma split_not_Nil: "split sep s \<noteq> []"
  by (induction s) (auto split: list.splits)

lemma split_no_sep: "sep \<notin> set a \<Longrightarrow> split sep a = [a]"
  by (induction a) auto

lemma split_append_sep: "sep \<notin> set a \<Longrightarrow> split sep (a @ sep # rest) = a # split sep rest"
  by (induction a) auto

lemma length_split: "length (split sep s) = Suc (count_list s sep)"
  by (induction s) (auto split: list.splits simp: split_not_Nil)

lemma set_replace_all: "set (replace_all c r s) \<subseteq> (set s - {c}) \<union> set r"
  by (induction s) (auto simp: replace_all_def)

lemma b64_char_mem: "b64_char i \<in> set b64_alphabet"
  unfolding b64_char_def by (rule nth_mem) (simp add: b64_alphabet_def js_def)

lemma set_base64_encode: "set (base64_encode bs) \<subseteq> insert (ch CHR ''='') (set b64_alphabet)"
  by (induction bs rule: base64_encode.induct) (auto simp: b64_char_mem)

lemma dot_not_alphabet: "ch CHR ''.'' \<notin> set b64_alphabet"
  by (simp add: b64_alphabet_def js_def ch_def)

lemma all_below_64: "list_all P [0..<64] \<Longrightarrow> P (i mod 64)"
  by (simp add: list_all_iff)

lemma b64_value_char: "b64_value (b64_char i) = Some (i mod 64)"
proof -
  have "list_all (\<lambda>j. b64_value (b64_char j) = Some j) [0..<64]"
    by code_simp
  then have "b64_value (b64_char (i mod 64)) = Some (i mod 64)"
    by (rule all_below_64[where P="\<lambda>j. b64_value (b64_char j) = Some j"])
  then show ?thesis by (simp add: b64_char_def)
qed

lemma b64_value_specials:
  "b64_value (ch CHR ''='') = None" "b64_value (ch CHR ''.'') = None"
  by (simp_all add: b64_value_def ch_def)

lemma b64_value_to_url: "b64_value (to_url c) = b64_value c"
  by (simp add: to_url_def b64_value_def ch_def)

lemma b64_value_from_url: "b64_value (from_url c) = b64_value c"
  by (simp add: from_url_def b64_value_def ch_def)

lemma b64_value_url_char: "b64_value (url_char i) = Some (i mod 64)"
  by (simp add: url_char_def b64_value_to_url b64_value_char)

lemma b64_char_not_pad: "b64_char i \<noteq> ch CHR ''=''"
  by (metis b64_value_char b64_value_specials(1) option.distinct(1))

lemma url_char_not_special:
  "url_char i \<noteq> ch CHR ''=''" "url_char i \<noteq> ch CHR ''.''"
  by (metis b64_value_url_char b64_value_specials(1) option.distinct(1))
     (metis b64_value_url_char b64_value_specials(2) option.distinct(1))

lemma from_url_not_pad: "b64_value c \<noteq> None \<Longrightarrow> from_url c \<noteq> ch CHR ''=''"
  by (metis b64_value_from_url b64_value_specials(1))

lemma replace_all_single: "replace_all c [r] s = map (\<lambda>x. if x = c then r else x) s"
  by (induction s) (auto simp: replace_all_def)

lemma replace_all_Nil: "replace_all c [] s = filter (\<lambda>x. x \<noteq> c) s"
  by (induction s) (auto simp: replace_all_def)

lemma replace_plus_slash:
  "replace_all (ch CHR ''/'') (js ''_'') (replace_all (ch CHR ''+'') (js ''-'') s) = map to_url s"
  by (induction s) (auto simp: replace_all_def js_def to_url_def ch_def)

lemma replace_minus_underscore:
  "replace_all (ch CHR ''_'') (js ''/'') (replace_all (ch CHR ''-'') (js ''+'') s) = map from_url s"
  by (induction s) (auto simp: replace_all_def js_def from_url_def ch_def)

lemma base64_encode_sextets:
  "\<exists>n. base64_encode bs = map b64_char (b64_sextets bs) @ replicate n (ch CHR ''='')"
proof (induction bs rule: b64_sextets.induct)
  case 1
  then show ?case by simp
next
  case (2 a)
  have "base64_encode [a] = map b64_char (b64_sextets [a]) @ replicate 2 (ch CHR ''='')"
    by (simp add: numeral_2_eq_2)
  then show ?case by blast
next
  case (3 a b)
  have "base64_encode [a, b] = map b64_char (b64_sextets [a, b]) @ replicate 1 (ch CHR ''='')"
    by simp
  then show ?case by blast
next
  case (4 a b c bs)
  then obtain n where "base64_encode bs = map b64_char (b64_sextets bs) @ replicate n (ch CHR ''='')"
    by blast
  then have "base64_encode (a # b # c # bs) =
      map b64_char (b64_sextets (a # b # c # bs)) @ replicate n (ch CHR ''='')"
    by simp
  then show ?case by blast
qed

lemma b64url_of_bytes: "b64url (Buf bs) = map url_char (b64_sextets bs)"
proof -
  have "filter (\<lambda>x. x \<noteq> ch CHR ''='') (base64_encode bs) = map b64_char (b64_sextets bs)"
    using base64_encode_sextets[of bs] by (auto simp: filter_id_conv b64_char_not_pad)
  then show ?thesis
    by (simp add: b64url_def replace_all_Nil replace_plus_slash url_char_def)
qed

lemma b64url_of_string: "b64url (Str s) = map url_char (b64_sextets (TextEncoder_encode s))"
  using b64url_of_bytes[of "TextEncoder_encode s"] by (simp add: b64url_def)

lemma dot_not_url_char: "ch CHR ''.'' \<noteq> url_char i"
  by (metis url_char_not_special(2))

lemma dot_not_url_chars: "ch CHR ''.'' \<notin> set (map url_char xs)"
  by (induction xs) (simp_all add: dot_not_url_char)

lemma dot_not_b64url: "ch CHR ''.'' \<notin> set (b64url x)"
  by (cases x) (simp_all only: b64url_of_bytes b64url_of_string dot_not_url_chars not_False_eq_True)

lemma byte_bound: "unat (a :: byte) < 256"
  using unsigned_less[of a] by simp

lemma unit_bound: "unat (c :: codeunit) < 65536"
  using unsigned_less[of c] by simp

lemma sextets_bytes:
  "sextets_to_bytes (map (\<lambda>i. i mod 64) (b64_sextets bs)) = bs"
proof (induction bs rule: b64_sextets.induct)
  case 1
  then show ?case by simp
next
  case (2 a)
  show ?case using byte_bound[of a] by simp
next
  case (3 a b)
  show ?case using byte_bound[of a] byte_bound[of b] by simp
next
  case (4 a b c bs)
  show ?case using byte_bound[of a] byte_bound[of b] byte_bound[of c] 4 by simp
qed

lemma map_filter_b64_value:
  "List.map_filter b64_value (map from_url (map url_char xs)) = map (\<lambda>i. i mod 64) xs"
  by (induction xs) (simp_all add: List.map_filter_simps b64_value_from_url b64_value_url_char)

lemma takeWhile_pad:
  "takeWhile (\<lambda>c. c \<noteq> ch CHR ''='') (map from_url (map url_char xs) @ replicate n (ch CHR ''='')) =
     map from_url (map url_char xs)"
proof -
  have "\<forall>c \<in> set (map from_url (map url_char xs)). c \<noteq> ch CHR ''=''"
    by (auto intro!: from_url_not_pad simp: b64_value_url_char)
  then show ?thesis
    by (cases n) (simp_all add: takeWhile_append2 takeWhile_tail)
qed

lemma b64urlDecode_b64url: "b64urlDecode (b64url (Buf bs)) = bs"
proof -
  let ?u = "map from_url (map url_char (b64_sextets bs))"
  have "b64urlDecode (b64url (Buf bs)) =
          base64_decode (?u @ replicate (if length ?u mod 4 = 0 then 0 else 4 - length ?u mod 4) (ch CHR ''=''))"
    by (simp only: b64urlDecode_def b64url_of_bytes replace_minus_underscore Let_def)
  also have "\<dots> = sextets_to_bytes (List.map_filter b64_value ?u)"
    by (simp only: base64_decode_def takeWhile_pad)
  also have "\<dots> = bs"
    by (simp only: map_filter_b64_value sextets_bytes)
  finally show ?thesis .
qed

lemma b64urlDecode_b64url_string: "b64urlDecode (b64url (Str s)) = TextEncoder_encode s"
  using b64urlDecode_b64url[of "TextEncoder_encode s"] by (simp add: b64url_def)

lemma js_dot: "js ''.'' = [ch CHR ''.'']"
  by (simp add: js_def)

lemma decrypt_three:
  "split (ch CHR ''.'') token = [h, p, s] \<Longrightarrow>
   decrypt sign e token =
     (if b64url (Buf (hmac sign e (h @ js ''.'' @ p))) \<noteq> s then JNull
      else case JSON_parse (TextDecoder_decode (b64urlDecode p)) of None \<Rightarrow> JNull | Some v \<Rightarrow> v)"
  by (simp add: decrypt_def Let_def)

lemma decrypt_not_three:
  "length (split (ch CHR ''.'') token) \<noteq> 3 \<Longrightarrow> decrypt sign e token = JNull"
  by (auto simp: decrypt_def split: list.splits)

lemma split_three:
  "ch CHR ''.'' \<notin> set h \<Longrightarrow> ch CHR ''.'' \<notin> set p \<Longrightarrow> ch CHR ''.'' \<notin> set s \<Longrightarrow>
   split (ch CHR ''.'') (h @ js ''.'' @ p @ js ''.'' @ s) = [h, p, s]"
  by (simp add: js_dot split_append_sep split_no_sep)

lemma encrypt_parts:
  "encrypt sign e payload =
     b64url (Str (JSON_stringify header_json)) @ js ''.'' @ b64url (Str (JSON_stringify payload)) @ js ''.''
       @ b64url (Buf (hmac sign e (b64url (Str (JSON_stringify header_json)) @ js ''.''
                                     @ b64url (Str (JSON_stringify payload)))))"
  by (simp add: encrypt_def Let_def)

lemma encrypt_split:
  "split (ch CHR ''.'') (encrypt sign e payload) =
     [b64url (Str (JSON_stringify header_json)), b64url (Str (JSON_stringify payload)),
      b64url (Buf (hmac sign e (b64url (Str (JSON_stringify header_json)) @ js ''.''
                                     @ b64url (Str (JSON_stringify payload)))))]"
  unfolding encrypt_parts by (rule split_three) (rule dot_not_b64url)+

section \<open>Text encoding and decoding\<close>

lemma unat_byte: "x < 256 \<Longrightarrow> unat (of_nat x :: byte) = x"
  by (simp add: unat_of_nat)

lemma unat_unit: "x < 65536 \<Longrightarrow> unat (of_nat x :: codeunit) = x"
  by (simp add: unat_of_nat)

lemma decode1: "unat b0 < 0x80 \<Longrightarrow> utf8_decode (b0 # rest) = unat b0 # utf8_decode rest"
  by simp

lemma decode2:
  "unat b0 = 0xC0 + x \<Longrightarrow> 2 \<le> x \<Longrightarrow> x < 32 \<Longrightarrow> unat b1 = 0x80 + y \<Longrightarrow> y < 64 \<Longrightarrow>
   utf8_decode (b0 # b1 # rest) = (x * 0x40 + y) # utf8_decode rest"
  by (simp add: in_range_def tail_bits_def)

lemma decode3:
  "unat b0 = 0xE0 + x \<Longrightarrow> x < 16 \<Longrightarrow> unat b1 = 0x80 + y \<Longrightarrow> y < 64 \<Longrightarrow>
   unat b2 = 0x80 + z \<Longrightarrow> z < 64 \<Longrightarrow> (x = 0 \<longrightarrow> 32 \<le> y) \<Longrightarrow> (x = 13 \<longrightarrow> y < 32) \<Longrightarrow>
   utf8_decode (b0 # b1 # b2 # rest) = (x * 0x1000 + y * 0x40 + z) # utf8_decode rest"
  by (auto simp: in_range_def tail_bits_def)

lemma decode4:
  "unat b0 = 0xF0 + x \<Longrightarrow> x \<le> 4 \<Longrightarrow> unat b1 = 0x80 + y \<Longrightarrow> y < 64 \<Longrightarrow>
   unat b2 = 0x80 + z \<Longrightarrow> z < 64 \<Longrightarrow> unat b3 = 0x80 + w \<Longrightarrow> w < 64 \<Longrightarrow>
   (x = 0 \<longrightarrow> 16 \<le> y) \<Longrightarrow> (x = 4 \<longrightarrow> y < 16) \<Longrightarrow>
   utf8_decode (b0 # b1 # b2 # b3 # rest) = (x * 0x40000 + y * 0x1000 + z * 0x40 + w) # utf8_decode rest"
  by (auto simp: in_range_def tail_bits_def)

lemma range_e0: "2048 \<le> (cp::nat) \<Longrightarrow> cp div 4096 = 0 \<Longrightarrow> 32 \<le> cp div 64 mod 64"
  by (auto simp: div_eq_0_iff)

lemma range_f0: "65536 \<le> (cp::nat) \<Longrightarrow> cp div 262144 = 0 \<Longrightarrow> 16 \<le> cp div 4096 mod 64"
  by (auto simp: div_eq_0_iff)

lemma range_ed: 
  assumes "\<not> (55296 \<le> cp \<and> cp \<le> 57343)" "(cp::nat) < 65536" "cp div 4096 = 13"
  shows "cp div 64 mod 64 < 32"
proof -
  have "cp = cp div 4096 * 4096 + cp mod 4096" by simp
  moreover have "cp mod 4096 < 4096" by simp
  ultimately have "cp < 57344" using assms(3) by linarith
  then have lt: "cp < 55296" using assms(1) by linarith
  have "cp div 64 div 64 = cp div 4096" by (simp add: div_mult2_eq[symmetric])
  moreover have "cp div 64 = cp div 64 div 64 * 64 + cp div 64 mod 64" by simp
  ultimately have "cp div 64 = 832 + cp div 64 mod 64" using assms(3) by simp
  moreover have "cp div 64 < 864" using lt by simp
  ultimately show ?thesis by linarith
qed

lemma range_f4: 
  assumes "(cp::nat) < 1114112" "cp div 262144 = 4" shows "cp div 4096 mod 64 < 16"
proof -
  have "cp div 4096 div 64 = cp div 262144" by (simp add: div_mult2_eq[symmetric])
  moreover have "cp div 4096 = cp div 4096 div 64 * 64 + cp div 4096 mod 64" by simp
  ultimately have "cp div 4096 = 256 + cp div 4096 mod 64" using assms(2) by simp
  moreover have "cp div 4096 < 272" using assms(1) by simp
  ultimately show ?thesis by linarith
qed

lemma split_bits3: "(n::nat) div 4096 * 4096 + n div 64 mod 64 * 64 + n mod 64 = n"
proof -
  have "n div 64 div 64 = n div 4096" by (simp add: div_mult2_eq[symmetric])
  moreover have "n div 64 = n div 64 div 64 * 64 + n div 64 mod 64" by simp
  moreover have "n = n div 64 * 64 + n mod 64" by simp
  ultimately show ?thesis by linarith
qed

lemma split_bits4:
  "(n::nat) div 262144 * 262144 + n div 4096 mod 64 * 4096 + n div 64 mod 64 * 64 + n mod 64 = n"
proof -
  have "n div 4096 div 64 = n div 262144" by (simp add: div_mult2_eq[symmetric])
  moreover have "n div 4096 = n div 4096 div 64 * 64 + n div 4096 mod 64" by simp
  ultimately have "n div 262144 * 262144 + n div 4096 mod 64 * 4096 = n div 4096 * 4096"
    by linarith
  then show ?thesis using split_bits3[of n] by linarith
qed

lemma utf8_decode_bytes:
  assumes "scalar cp"
  shows "utf8_decode (utf8_bytes cp @ rest) = cp # utf8_decode rest"
proof -
  consider "cp < 0x80" | "0x80 \<le> cp" "cp < 0x800" | "0x800 \<le> cp" "cp < 0x10000"
    | "0x10000 \<le> cp" "cp < 0x110000"
    using assms unfolding scalar_def by linarith
  then show ?thesis
  proof cases
    case 1
    then show ?thesis by (simp add: utf8_bytes_def unat_byte)
  next
    case 2
    have "utf8_decode (of_nat (0xC0 + cp div 0x40) # of_nat (0x80 + cp mod 0x40) # rest)
        = (cp div 0x40 * 0x40 + cp mod 0x40) # utf8_decode rest"
      using 2 by (intro decode2) (simp_all add: unat_byte del: of_nat_add of_nat_numeral)
    then show ?thesis using 2 by (simp add: utf8_bytes_def)
  next
    case 3
    have ns: "\<not> (0xD800 \<le> cp \<and> cp \<le> 0xDFFF)" using assms by (simp add: scalar_def)
    have "utf8_decode (of_nat (0xE0 + cp div 0x1000) # of_nat (0x80 + cp div 0x40 mod 0x40)
            # of_nat (0x80 + cp mod 0x40) # rest)
        = (cp div 0x1000 * 0x1000 + cp div 0x40 mod 0x40 * 0x40 + cp mod 0x40) # utf8_decode rest"
      using 3 ns range_e0[of cp] range_ed[of cp]
      by (intro decode3) (simp_all add: unat_byte del: of_nat_add of_nat_numeral)
    moreover have "cp div 0x1000 * 0x1000 + cp div 0x40 mod 0x40 * 0x40 + cp mod 0x40 = cp"
      using split_bits3[of cp] by simp
    ultimately show ?thesis using 3 by (simp add: utf8_bytes_def)
  next
    case 4
    have "utf8_decode (of_nat (0xF0 + cp div 0x40000) # of_nat (0x80 + cp div 0x1000 mod 0x40)
            # of_nat (0x80 + cp div 0x40 mod 0x40) # of_nat (0x80 + cp mod 0x40) # rest)
        = (cp div 0x40000 * 0x40000 + cp div 0x1000 mod 0x40 * 0x1000 + cp div 0x40 mod 0x40 * 0x40
             + cp mod 0x40) # utf8_decode rest"
      using 4 range_f0[of cp] range_f4[of cp]
      by (intro decode4) (simp_all add: unat_byte del: of_nat_add of_nat_numeral)
    moreover have "cp div 0x40000 * 0x40000 + cp div 0x1000 mod 0x40 * 0x1000
        + cp div 0x40 mod 0x40 * 0x40 + cp mod 0x40 = cp"
      using split_bits4[of cp] by simp
    ultimately show ?thesis using 4 by (simp add: utf8_bytes_def)
  qed
qed

lemma utf8_decode_concat:
  "\<forall>cp \<in> set cps. scalar cp \<Longrightarrow> utf8_decode (concat (map utf8_bytes cps)) = cps"
  by (induction cps) (simp_all add: utf8_decode_bytes)

lemma lone_unit_scalar: "scalar (lone_unit c)"
  using unit_bound[of c]
  by (auto simp: lone_unit_def scalar_def is_high_surrogate_def is_low_surrogate_def)

lemma pair_scalar:
  "is_high_surrogate c \<Longrightarrow> is_low_surrogate d \<Longrightarrow>
   scalar (0x10000 + (unat c - 0xD800) * 0x400 + (unat d - 0xDC00))"
  by (auto simp: scalar_def is_high_surrogate_def is_low_surrogate_def)

lemma code_points_scalar: "\<forall>cp \<in> set (code_points s). scalar cp"
  by (induction s rule: code_points.induct) (simp_all add: lone_unit_scalar pair_scalar)

lemma utf16_units_lone:
  "\<not> is_high_surrogate c \<Longrightarrow> \<not> is_low_surrogate c \<Longrightarrow> utf16_units (lone_unit c) = [c]"
  using unit_bound[of c] by (simp add: lone_unit_def utf16_units_def)

lemma utf16_units_pair:
  assumes "is_high_surrogate c" "is_low_surrogate d"
  shows "utf16_units (0x10000 + (unat c - 0xD800) * 0x400 + (unat d - 0xDC00)) = [c, d]"
proof -
  have l: "unat d - 0xDC00 < 0x400" and h: "0xD800 \<le> unat c" and ld: "0xDC00 \<le> unat d"
    using assms by (auto simp: is_high_surrogate_def is_low_surrogate_def)
  have "((unat c - 0xD800) * 0x400 + (unat d - 0xDC00)) div 0x400 = unat c - 0xD800"
    using l by simp
  moreover have "((unat c - 0xD800) * 0x400 + (unat d - 0xDC00)) mod 0x400 = unat d - 0xDC00"
    using l by simp
  moreover have "(of_nat (0xD800 + (unat c - 0xD800)) :: codeunit) = c"
    using h by (simp del: of_nat_add of_nat_numeral)
  moreover have "(of_nat (0xDC00 + (unat d - 0xDC00)) :: codeunit) = d"
    using ld by (simp del: of_nat_add of_nat_numeral)
  ultimately show ?thesis
    by (simp add: utf16_units_def del: of_nat_add of_nat_numeral)
qed

lemma units_code_points: "wf16 s \<Longrightarrow> concat (map utf16_units (code_points s)) = s"
  by (induction s rule: code_points.induct)
     (auto simp: utf16_units_lone utf16_units_pair split: if_splits)

lemma encode_ascii_Cons:
  assumes "unat c < 0x80"
  shows "TextEncoder_encode (c # cs) = of_nat (unat c) # TextEncoder_encode cs"
proof -
  have ns: "\<not> is_high_surrogate c" "\<not> is_low_surrogate c"
    using assms by (simp_all add: is_high_surrogate_def is_low_surrogate_def)
  then have "code_points (c # cs) = unat c # code_points cs"
    by (cases cs) (simp_all add: lone_unit_def)
  then show ?thesis using assms by (simp add: TextEncoder_encode_def utf8_bytes_def)
qed

lemma strip_bom_ascii: "unat b < 0x80 \<Longrightarrow> strip_bom (b # bs) = b # bs"
  by (auto simp: strip_bom_def split: list.splits)

lemma decode_encode_text:
  assumes "wf16 (c # cs)" "unat c < 0x80"
  shows "TextDecoder_decode (TextEncoder_encode (c # cs)) = c # cs"
proof -
  have "unat (of_nat (unat c) :: byte) < 0x80"
    using assms(2) by (simp add: unat_byte del: of_nat_unat)
  then have "strip_bom (TextEncoder_encode (c # cs)) = TextEncoder_encode (c # cs)"
    using assms(2) by (simp only: encode_ascii_Cons strip_bom_ascii)
  then show ?thesis
    using assms(1)
    by (simp add: TextDecoder_decode_def TextEncoder_encode_def utf8_decode_concat
        code_points_scalar units_code_points)
qed

section \<open>Decimal numbers\<close>

lemma digits_lt10: "d \<in> set (digits_of n) \<Longrightarrow> d < 10"
proof (induction n arbitrary: d rule: digits_of.induct)
  case (1 n)
  then show ?case
    by (subst (asm) (2) digits_of.simps) (auto split: if_splits)
qed

lemma digits_not_Nil: "digits_of n \<noteq> []"
  by (subst digits_of.simps) simp

lemma nat_of_digits_snoc: "nat_of_digits (a @ [d]) = nat_of_digits a * 10 + d"
  by (simp add: nat_of_digits_def)

lemma nat_of_digits_of: "nat_of_digits (digits_of n) = n"
proof (induction n rule: digits_of.induct)
  case (1 n)
  show ?case
  proof (cases "n < 10")
    case True
    then show ?thesis by (subst digits_of.simps) (simp add: nat_of_digits_def)
  next
    case False
    then have "nat_of_digits (digits_of (n div 10)) = n div 10" using 1 by simp
    then show ?thesis using False
      by (subst digits_of.simps) (simp add: nat_of_digits_snoc)
  qed
qed

lemma hd_digits: "0 < n \<Longrightarrow> hd (digits_of n) \<noteq> 0"
proof (induction n rule: digits_of.induct)
  case (1 n)
  show ?case
  proof (cases "n < 10")
    case True
    then show ?thesis using 1(2) by (subst digits_of.simps) simp
  next
    case False
    then have "hd (digits_of (n div 10)) \<noteq> 0" using 1 by simp
    then show ?thesis using False
      by (subst digits_of.simps) (simp add: digits_not_Nil)
  qed
qed

lemma digits_upper: "n < 10 ^ length (digits_of n)"
proof (induction n rule: digits_of.induct)
  case (1 n)
  show ?case
  proof (cases "n < 10")
    case True
    then show ?thesis by (subst digits_of.simps) simp
  next
    case False
    then have "n div 10 < 10 ^ length (digits_of (n div 10))" using 1 by simp
    then have "n < 10 * 10 ^ length (digits_of (n div 10))" by simp
    then show ?thesis using False
      by (subst digits_of.simps) simp
  qed
qed

lemma digits_lower: "0 < n \<Longrightarrow> 10 ^ (length (digits_of n) - 1) \<le> n"
proof (induction n rule: digits_of.induct)
  case (1 n)
  show ?case
  proof (cases "n < 10")
    case True
    then show ?thesis using 1(2) by (subst digits_of.simps) simp
  next
    case False
    then have "10 ^ (length (digits_of (n div 10)) - 1) \<le> n div 10" using 1 by simp
    then have "10 * 10 ^ (length (digits_of (n div 10)) - 1) \<le> n" by simp
    moreover have "0 < length (digits_of (n div 10))" using digits_not_Nil by simp
    ultimately have "10 ^ length (digits_of (n div 10)) \<le> n"
      by (metis Suc_pred' power_Suc)
    then show ?thesis using False
      by (subst digits_of.simps) simp
  qed
qed

lemma digits_length_le: "n < 10 ^ k \<Longrightarrow> 0 < k \<Longrightarrow> length (digits_of n) \<le> k"
proof (cases "n = 0")
  case True
  assume "0 < k"
  then show ?thesis using True by (subst digits_of.simps) simp
next
  case False
  assume n: "n < 10 ^ k"
  have "(10::nat) ^ (length (digits_of n) - 1) \<le> n"
    using digits_lower[of n] False by simp
  then have "(10::nat) ^ (length (digits_of n) - 1) < 10 ^ k"
    using n by (rule le_less_trans)
  then have "length (digits_of n) - 1 < k" by simp
  then show ?thesis by simp
qed

lemma digits_length_gt: "10 ^ k \<le> n \<Longrightarrow> k < length (digits_of n)"
proof -
  assume "10 ^ k \<le> n"
  then have "(10::nat) ^ k < 10 ^ length (digits_of n)"
    using digits_upper[of n] by (rule le_less_trans)
  then show ?thesis by simp
qed

lemma strip_zeros_pad:
  "strip_zeros ds @ replicate (length ds - length (strip_zeros ds)) 0 = ds"
proof -
  have "rev ds = takeWhile (\<lambda>d. d = 0) (rev ds) @ dropWhile (\<lambda>d. d = 0) (rev ds)" by simp
  then have "ds = rev (dropWhile (\<lambda>d. d = 0) (rev ds)) @ rev (takeWhile (\<lambda>d. d = 0) (rev ds))"
    by (metis rev_append rev_rev_ident)
  moreover have "takeWhile (\<lambda>d. d = 0) (rev ds)
      = replicate (length (takeWhile (\<lambda>d. d = 0) (rev ds))) (0::nat)"
    by (rule replicate_length_same[symmetric]) (auto dest: set_takeWhileD)
  moreover have "length ds = length (dropWhile (\<lambda>d. d = 0) (rev ds))
      + length (takeWhile (\<lambda>d. d = 0) (rev ds))"
    by (metis add.commute length_append length_rev takeWhile_dropWhile_id)
  ultimately show ?thesis
    by (simp add: strip_zeros_def) (metis rev_replicate)
qed

lemma digit_char_props:
  assumes "d < 10"
  shows "is_digit (digit_char d)" "digit_val (digit_char d) = d"
    "digit_char d \<noteq> ch CHR ''-''" "digit_char d \<noteq> ch CHR ''+''"
    "unat (digit_char d) = 48 + d"
proof -
  have u: "unat (digit_char d) = 48 + d"
    using assms by (simp add: digit_char_def unat_of_nat del: of_nat_add of_nat_numeral)
  show "unat (digit_char d) = 48 + d" by (rule u)
  show "is_digit (digit_char d)" using assms u by (simp add: is_digit_def)
  show "digit_val (digit_char d) = d" using u by (simp add: digit_val_def)
  show "digit_char d \<noteq> ch CHR ''-''" using u by (auto simp: ch_def)
  show "digit_char d \<noteq> ch CHR ''+''" using u by (auto simp: ch_def)
qed

lemma digit_char_zero: "d < 10 \<Longrightarrow> digit_char d = ch CHR ''0'' \<longleftrightarrow> d = 0"
  using digit_char_props(5)[of d] by (auto simp: ch_def digit_char_def)

lemma digit_vals_chars: "\<forall>d \<in> set ds. d < 10 \<Longrightarrow> digit_vals (map digit_char ds) = ds"
  by (induction ds) (simp_all add: digit_vals_def digit_char_props)

lemma not_digit_hd: "rest = [] \<or> \<not> is_digit (hd rest) \<Longrightarrow> takeWhile is_digit rest = []"
  by (cases rest) auto

lemma takeWhile_digits:
  "\<forall>d \<in> set ds. d < 10 \<Longrightarrow> rest = [] \<or> \<not> is_digit (hd rest) \<Longrightarrow>
   takeWhile is_digit (map digit_char ds @ rest) = map digit_char ds"
  by (induction ds) (simp_all add: digit_char_props not_digit_hd)

lemma dropWhile_digits:
  "\<forall>d \<in> set ds. d < 10 \<Longrightarrow> rest = [] \<or> \<not> is_digit (hd rest) \<Longrightarrow>
   dropWhile is_digit (map digit_char ds @ rest) = rest"
proof (induction ds)
  case Nil
  then show ?case by (cases rest) auto
next
  case (Cons d ds)
  then show ?case by (simp add: digit_char_props)
qed

lemma num_end_not_digit: "num_end rest \<Longrightarrow> rest = [] \<or> \<not> is_digit (hd rest)"
  by (cases rest) (auto simp: num_end_def)

lemma scan_fraction_none: "num_end rest \<Longrightarrow> scan_fraction rest = ([], rest)"
  by (cases rest) (auto simp: num_end_def scan_fraction_def)

lemma scan_exponent_none: "num_end rest \<Longrightarrow> scan_exponent rest = (0, rest)"
  by (cases rest) (auto simp: num_end_def scan_exponent_def)

lemma scan_number_sign:
  assumes "s \<noteq> []" "is_digit (hd s)"
  shows "scan_number (sign_text neg @ s) =
     (let ids = takeWhile is_digit s
      in if 1 < length ids \<and> take 1 ids = js ''0'' then None
         else
           let (fds, s2) = scan_fraction (dropWhile is_digit s);
               (e, s3) = scan_exponent s2
           in Some (decimal neg (digit_vals ids) fds e, s3))"
proof -
  obtain c r where s: "s = c # r" using assms(1) by (cases s) auto
  have c: "is_digit c" using assms(2) s by simp
  then have cm: "c \<noteq> ch CHR ''-''" by (auto simp: is_digit_def ch_def)
  show ?thesis
  proof (cases neg)
    case True
    then show ?thesis using c by (simp add: scan_number_def sign_text_def s)
  next
    case False
    then show ?thesis using c cm by (simp add: scan_number_def sign_text_def s)
  qed
qed

lemma scan_number_plain:
  assumes ds: "\<forall>d \<in> set ds. d < 10" and ne: "ds \<noteq> []"
    and lz: "length ds = 1 \<or> hd ds \<noteq> 0" and rest: "num_end rest"
  shows "scan_number (sign_text neg @ map digit_char ds @ rest) =
           Some (((if neg then - 1 else 1) * int (nat_of_digits ds), 0), rest)"
proof -
  let ?s = "map digit_char ds @ rest"
  have nd: "rest = [] \<or> \<not> is_digit (hd rest)" using rest by (rule num_end_not_digit)
  have hd: "is_digit (hd ?s)" using ds ne by (cases ds) (simp_all add: digit_char_props)
  have tw: "takeWhile is_digit ?s = map digit_char ds" using ds nd by (rule takeWhile_digits)
  have dw: "dropWhile is_digit ?s = rest" using ds nd by (rule dropWhile_digits)
  have z: "\<not> (1 < length ds \<and> take 1 (map digit_char ds) = js ''0'')"
    using lz ds ne by (cases ds) (auto simp: js_def digit_char_zero)
  have "scan_number (sign_text neg @ ?s) =
      Some (decimal neg (digit_vals (map digit_char ds)) [] 0, rest)"
    using z ne hd
    by (simp add: scan_number_sign tw dw scan_fraction_none[OF rest] scan_exponent_none[OF rest]
        Let_def del: append_assoc)
  then show ?thesis using ds by (simp add: digit_vals_chars decimal_def)
qed

lemma nat_of_digits_zeros: "nat_of_digits (a @ replicate j 0) = nat_of_digits a * 10 ^ j"
proof (induction j)
  case 0
  then show ?case by simp
next
  case (Suc j)
  have "a @ replicate (Suc j) 0 = (a @ replicate j 0) @ [0]"
    by (simp add: replicate_append_same)
  then show ?case using Suc by (simp only: nat_of_digits_snoc) simp
qed

lemma scan_signed_plus:
  assumes "\<forall>d \<in> set ds. d < 10" "ds \<noteq> []" "rest = [] \<or> \<not> is_digit (hd rest)"
  shows "scan_signed_digits (ch CHR ''+'' # map digit_char ds @ rest) =
           Some (int (nat_of_digits ds), rest)"
proof -
  have "ch CHR ''+'' \<noteq> ch CHR ''-''" by (simp add: ch_def)
  then show ?thesis
    using assms
    by (simp add: scan_signed_digits_def Let_def takeWhile_digits dropWhile_digits digit_vals_chars)
qed

lemma scan_exponent_part:
  assumes "0 \<le> e" "rest = [] \<or> \<not> is_digit (hd rest)"
  shows "scan_exponent (exponent_part e @ rest) = (e, rest)"
proof -
  have "scan_signed_digits (ch CHR ''+'' # map digit_char (digits_of (nat \<bar>e\<bar>)) @ rest) =
      Some (int (nat_of_digits (digits_of (nat \<bar>e\<bar>))), rest)"
    using assms(2) by (intro scan_signed_plus) (auto simp: digits_not_Nil dest: digits_lt10)
  then show ?thesis
    using assms(1) by (simp add: scan_exponent_def exponent_part_def nat_of_digits_of)
qed

lemma exponent_part_hd:
  "exponent_part e @ rest = ch CHR ''e'' # tl (exponent_part e @ rest)"
  by (simp add: exponent_part_def)

lemma scan_fraction_exp: "scan_fraction (exponent_part e @ rest) = ([], exponent_part e @ rest)"
proof -
  have "ch CHR ''e'' \<noteq> ch CHR ''.''" by (simp add: ch_def)
  then show ?thesis
    by (subst (1 2) exponent_part_hd) (simp add: scan_fraction_def)
qed

lemma e_not_digit: "\<not> is_digit (ch CHR ''e'')" "\<not> is_digit (ch CHR ''.'')"
  by (simp_all add: is_digit_def ch_def)

lemma scan_fraction_digits:
  assumes "\<forall>d \<in> set fds. d < 10" "fds \<noteq> []"
  shows "scan_fraction (ch CHR ''.'' # map digit_char fds @ exponent_part e @ rest) =
           (fds, exponent_part e @ rest)"
proof -
  have nd: "exponent_part e @ rest = [] \<or> \<not> is_digit (hd (exponent_part e @ rest))"
    by (simp add: exponent_part_def e_not_digit)
  show ?thesis
    using assms
    by (simp add: scan_fraction_def takeWhile_digits[OF assms(1) nd] dropWhile_digits[OF assms(1) nd]
        digit_vals_chars)
qed

lemma scan_number_after_digit:
  assumes d1: "d1 < 10" and f: "f \<noteq> []" "\<not> is_digit (hd f)"
    and fr: "scan_fraction f = (fds, x)" and ex: "scan_exponent x = (e, rest)"
  shows "scan_number (sign_text neg @ digit_char d1 # f) = Some (decimal neg [d1] fds e, rest)"
proof -
  have tw: "takeWhile is_digit (digit_char d1 # f) = [digit_char d1]"
    using d1 f by (cases f) (simp_all add: digit_char_props)
  have dw: "dropWhile is_digit (digit_char d1 # f) = f"
    using d1 f by (cases f) (simp_all add: digit_char_props)
  have "scan_number (sign_text neg @ digit_char d1 # f) =
      (let ids = takeWhile is_digit (digit_char d1 # f)
      in if 1 < length ids \<and> take 1 ids = js ''0'' then None
         else
           let (fds, s2) = scan_fraction (dropWhile is_digit (digit_char d1 # f));
               (e, s3) = scan_exponent s2
           in Some (decimal neg (digit_vals ids) fds e, s3))"
    using d1 by (intro scan_number_sign) (simp_all add: digit_char_props)
  also have "\<dots> = Some (decimal neg (digit_vals [digit_char d1]) fds e, rest)"
    by (simp only: tw dw Let_def fr prod.case ex) simp
  finally show ?thesis using d1 by (simp add: digit_vals_def digit_char_props)
qed

lemma scan_number_exp:
  assumes d1: "d1 < 10" and fds: "\<forall>d \<in> set fds. d < 10" and e: "0 \<le> e"
    and rest: "rest = [] \<or> \<not> is_digit (hd rest)"
  shows "scan_number (sign_text neg @ digit_char d1
            # (if fds = [] then [] else ch CHR ''.'' # map digit_char fds) @ exponent_part e @ rest) =
           Some (decimal neg [d1] fds e, rest)"
proof (cases "fds = []")
  case True
  have "scan_number (sign_text neg @ digit_char d1 # exponent_part e @ rest) =
      Some (decimal neg [d1] [] e, rest)"
    using d1
  proof (rule scan_number_after_digit)
    show "exponent_part e @ rest \<noteq> []" by (simp add: exponent_part_def)
    show "\<not> is_digit (hd (exponent_part e @ rest))" by (simp add: exponent_part_def e_not_digit)
    show "scan_fraction (exponent_part e @ rest) = ([], exponent_part e @ rest)"
      by (rule scan_fraction_exp)
    show "scan_exponent (exponent_part e @ rest) = (e, rest)"
      using e rest by (rule scan_exponent_part)
  qed
  then show ?thesis using True by simp
next
  case False
  have "scan_number (sign_text neg @ digit_char d1
          # (ch CHR ''.'' # map digit_char fds @ exponent_part e @ rest)) =
      Some (decimal neg [d1] fds e, rest)"
    using d1
  proof (rule scan_number_after_digit)
    show "ch CHR ''.'' # map digit_char fds @ exponent_part e @ rest \<noteq> []" by simp
    show "\<not> is_digit (hd (ch CHR ''.'' # map digit_char fds @ exponent_part e @ rest))"
      by (simp add: e_not_digit)
    show "scan_fraction (ch CHR ''.'' # map digit_char fds @ exponent_part e @ rest) =
        (fds, exponent_part e @ rest)"
      using fds False by (rule scan_fraction_digits)
    show "scan_exponent (exponent_part e @ rest) = (e, rest)"
      using e rest by (rule scan_exponent_part)
  qed
  then show ?thesis using False by simp
qed

lemma strip_zeros_props:
  assumes "ds \<noteq> []" "hd ds \<noteq> 0"
  shows "strip_zeros ds \<noteq> []" "hd (strip_zeros ds) = hd ds" "set (strip_zeros ds) \<subseteq> set ds"
    "length (strip_zeros ds) \<le> length ds"
proof -
  let ?s = "strip_zeros ds"
  have pad: "?s @ replicate (length ds - length ?s) 0 = ds" by (rule strip_zeros_pad)
  show ne: "?s \<noteq> []"
  proof
    assume "?s = []"
    then have "ds = replicate (length ds) 0" using pad by simp
    then have "hd ds = 0" using assms(1) by (metis hd_replicate length_0_conv replicate_empty)
    then show False using assms(2) by simp
  qed
  show "hd ?s = hd ds" using ne pad by (metis hd_append2)
  show "set ?s \<subseteq> set ds" using pad by (metis set_append sup_ge1)
  show "length ?s \<le> length ds" using pad by (metis le_add1 length_append)
qed

lemma number_to_string_zero: "number_to_string 0 0 = sign_text False @ map digit_char [0] "
  by (simp add: number_to_string_def sign_text_def js_def digit_char_def ch_def)

lemma number_to_string_small:
  assumes "n \<noteq> 0" "length (digits_of (nat \<bar>n\<bar>)) \<le> 21"
  shows "number_to_string n 0 = sign_text (n < 0) @ map digit_char (digits_of (nat \<bar>n\<bar>))"
proof -
  let ?ds = "digits_of (nat \<bar>n\<bar>)"
  let ?s = "strip_zeros ?ds"
  have pos: "0 < nat \<bar>n\<bar>" using assms(1) by simp
  have len: "length ?s \<le> length ?ds"
    using strip_zeros_props(4)[OF digits_not_Nil hd_digits[OF pos]] .
  have pad: "map digit_char ?s @ replicate (length ?ds - length ?s) (ch CHR ''0'') = map digit_char ?ds"
  proof -
    have "map digit_char (?s @ replicate (length ?ds - length ?s) 0) = map digit_char ?ds"
      by (simp only: strip_zeros_pad)
    moreover have "digit_char 0 = ch CHR ''0''" by (simp add: digit_char_def ch_def)
    ultimately show ?thesis by simp
  qed
  have diff: "nat (int (length ?ds) - int 0 - int (length ?s)) = length ?ds - length ?s"
    using len by (simp add: nat_diff_distrib')
  have cond: "int (length ?s) \<le> int (length ?ds) - int 0 \<and> int (length ?ds) - int 0 \<le> 21"
    using len assms(2) by simp
  have "number_to_string n 0 =
      (if n < 0 then ch CHR ''-'' # map digit_char ?ds else map digit_char ?ds)"
    unfolding number_to_string_def Let_def
    by (simp only: assms(1) cond if_False if_True diff pad simp_thms)
  then show ?thesis by (simp add: sign_text_def)
qed

lemma number_to_string_large:
  assumes "21 < length (digits_of (nat \<bar>n\<bar>))"
  shows "number_to_string n 0 =
     sign_text (n < 0) @ digit_char (hd (strip_zeros (digits_of (nat \<bar>n\<bar>))))
       # (if tl (strip_zeros (digits_of (nat \<bar>n\<bar>))) = [] then []
          else ch CHR ''.'' # map digit_char (tl (strip_zeros (digits_of (nat \<bar>n\<bar>)))))
       @ exponent_part (int (length (digits_of (nat \<bar>n\<bar>))) - 1)"
proof -
  let ?ds = "digits_of (nat \<bar>n\<bar>)"
  let ?s = "strip_zeros ?ds"
  let ?L = "int (length ?ds) - int 0"
  have n0: "(n = 0) = False"
  proof -
    have "n \<noteq> 0"
    proof
      assume "n = 0"
      then have "length ?ds = 1" by (subst digits_of.simps) simp
      then show False using assms by simp
    qed
    then show ?thesis by simp
  qed
  then have pos: "0 < nat \<bar>n\<bar>" by simp
  have ne: "?s \<noteq> []" using strip_zeros_props(1)[OF digits_not_Nil hd_digits[OF pos]] .
  have c1: "(int (length ?s) \<le> ?L \<and> ?L \<le> 21) = False" using assms by simp
  have c2: "(0 < ?L \<and> ?L \<le> 21) = False" using assms by simp
  have c3: "(- 6 < ?L \<and> ?L \<le> 0) = False" using assms by (simp add: digits_not_Nil)
  have e: "?L - 1 = int (length ?ds) - 1" by simp
  let ?B = "digit_char (hd ?s) # (if tl ?s = [] then [] else ch CHR ''.'' # map digit_char (tl ?s))
       @ exponent_part (int (length ?ds) - 1)"
  have body: "(if int (length ?s) = 1 then map digit_char ?s @ exponent_part (int (length ?ds) - 1)
        else map digit_char (take 1 ?s) @ ch CHR ''.'' # map digit_char (drop 1 ?s)
               @ exponent_part (int (length ?ds) - 1)) = ?B"
    using ne by (cases ?s; cases "tl ?s") simp_all
  have "number_to_string n 0 = (if n < 0 then ch CHR ''-'' # ?B else ?B)"
    unfolding number_to_string_def Let_def
    by (simp only: n0 c1 c2 c3 e if_False body)
  then show ?thesis by (simp add: sign_text_def)
qed

lemma scan_number_to_string:
  assumes rest: "num_end rest"
  shows "scan_number (number_to_string n 0 @ rest) = Some ((n, 0), rest)"
proof (cases "n = 0")
  case True
  have "scan_number (sign_text False @ map digit_char [0] @ rest) =
      Some (((if False then - 1 else 1) * int (nat_of_digits [0]), 0), rest)"
    using rest by (intro scan_number_plain) simp_all
  then show ?thesis using True by (simp add: number_to_string_zero nat_of_digits_def)
next
  case False
  let ?a = "nat \<bar>n\<bar>"
  let ?ds = "digits_of ?a"
  have pos: "0 < ?a" using False by simp
  have lt: "\<forall>d \<in> set ?ds. d < 10" using digits_lt10 by blast
  have hd: "hd ?ds \<noteq> 0" using pos by (rule hd_digits)
  have val: "(if n < 0 then - 1 else 1) * int ?a = n" by simp
  show ?thesis
  proof (cases "length ?ds \<le> 21")
    case True
    have "scan_number (sign_text (n < 0) @ map digit_char ?ds @ rest) =
        Some (((if n < 0 then - 1 else 1) * int (nat_of_digits ?ds), 0), rest)"
      using lt digits_not_Nil hd rest by (intro scan_number_plain) simp_all
    then show ?thesis
      using False True val by (simp add: number_to_string_small nat_of_digits_of)
  next
    case large: False
    let ?s = "strip_zeros ?ds"
    have ne: "?s \<noteq> []" and hs: "hd ?s = hd ?ds" and sub: "set ?s \<subseteq> set ?ds"
      and len: "length ?s \<le> length ?ds"
      using strip_zeros_props[OF digits_not_Nil hd] by auto
    have d1: "hd ?s < 10" using ne sub lt by (meson hd_in_set subsetD)
    have fds: "\<forall>d \<in> set (tl ?s). d < 10" using ne sub lt by (meson list.set_sel(2) subsetD)
    have "scan_number (sign_text (n < 0) @ digit_char (hd ?s)
            # (if tl ?s = [] then [] else ch CHR ''.'' # map digit_char (tl ?s))
              @ exponent_part (int (length ?ds) - 1) @ rest) =
        Some (decimal (n < 0) [hd ?s] (tl ?s) (int (length ?ds) - 1), rest)"
      using d1 fds large num_end_not_digit[OF rest]
      by (intro scan_number_exp) (simp_all add: digits_not_Nil)
    moreover have "decimal (n < 0) [hd ?s] (tl ?s) (int (length ?ds) - 1) = (n, 0)"
    proof -
      let ?j = "length ?ds - length ?s"
      let ?sg = "(if n < 0 then - 1 else 1) :: int"
      have s: "[hd ?s] @ tl ?s = ?s" using ne by simp
      have "nat_of_digits ?s * 10 ^ ?j = ?a"
        using nat_of_digits_zeros[of ?s ?j]
        by (simp only: strip_zeros_pad nat_of_digits_of)
      then have "int (nat_of_digits ?s * 10 ^ ?j) = int ?a" by (rule arg_cong)
      then have v: "int (nat_of_digits ?s) * 10 ^ ?j = int ?a" by simp
      have sc: "int (length ?ds) - 1 - int (length (tl ?s)) = int ?j"
        using ne len by (cases ?s) simp_all
      have "decimal (n < 0) [hd ?s] (tl ?s) (int (length ?ds) - 1)
          = (?sg * int (nat_of_digits ?s) * 10 ^ ?j, 0)"
        unfolding decimal_def Let_def s sc by simp
      also have "?sg * int (nat_of_digits ?s) * 10 ^ ?j = ?sg * int ?a"
        using v by (simp only: mult.assoc)
      finally show ?thesis using val by simp
    qed
    ultimately show ?thesis
      using large by (simp add: number_to_string_large)
  qed
qed

section \<open>String literals of JSON\<close>

lemma plain_ascii: "unat c < 0x80 \<Longrightarrow> plain c"
  by (simp add: plain_def is_high_surrogate_def is_low_surrogate_def)

lemma wf16_Cons_plain: "plain c \<Longrightarrow> wf16 (c # s) = wf16 s"
  by (cases s) (simp_all add: plain_def)

lemma wf16_append_plain: "\<forall>c \<in> set a. plain c \<Longrightarrow> wf16 (a @ b) = wf16 b"
  by (induction a) (simp_all add: wf16_Cons_plain)

lemma unat_hex_char: "d < 16 \<Longrightarrow> unat (hex_char d) = (if d < 10 then 0x30 + d else 0x61 + (d - 10))"
  by (simp add: hex_char_def unat_of_nat del: of_nat_add of_nat_numeral)

lemma hex_val_char: "d < 16 \<Longrightarrow> hex_val (hex_char d) = Some d"
  by (simp add: hex_val_def unat_hex_char)

lemma plain_hex_char: "d < 16 \<Longrightarrow> plain (hex_char d)"
  by (rule plain_ascii) (simp add: unat_hex_char)

lemma split_hex:
  "((u div 4096 * 16 + u div 256 mod 16) * 16 + u div 16 mod 16) * 16 + u mod 16 = (u::nat)"
proof -
  have a: "u div 16 div 16 = u div 256" by (simp add: div_mult2_eq[symmetric])
  have b: "u div 256 div 16 = u div 4096" by (simp add: div_mult2_eq[symmetric])
  have "u div 4096 * 16 + u div 256 mod 16 = u div 256"
    using div_mult_mod_eq[of "u div 256" 16] by (simp only: b)
  moreover have "u div 256 * 16 + u div 16 mod 16 = u div 16"
    using div_mult_mod_eq[of "u div 16" 16] by (simp only: a)
  moreover have "u div 16 * 16 + u mod 16 = u"
    by (rule div_mult_mod_eq)
  ultimately show ?thesis by simp
qed

lemma hex4_escape:
  "hex4 (hex_char (unat c div 4096)) (hex_char (unat c div 256 mod 16))
        (hex_char (unat c div 16 mod 16)) (hex_char (unat c mod 16)) = Some c"
proof -
  have "unat c div 4096 < 16" using unit_bound[of c] by simp
  then have hv: "hex_val (hex_char (unat c div 4096)) = Some (unat c div 4096)"
    "hex_val (hex_char (unat c div 256 mod 16)) = Some (unat c div 256 mod 16)"
    "hex_val (hex_char (unat c div 16 mod 16)) = Some (unat c div 16 mod 16)"
    "hex_val (hex_char (unat c mod 16)) = Some (unat c mod 16)"
    by (simp_all add: hex_val_char)
  have r: "(of_nat (unat c) :: codeunit) = c" by simp
  show ?thesis
    by (simp only: hex4_def hv prod.case option.case split_hex r)
qed

lemma scan_unicode_escape:
  "scan_string (unicode_escape c @ x) = cons_fst c (scan_string x)"
  by (simp add: unicode_escape_def hex4_escape ch_def)

lemma scan_quote_unit: "scan_string (quote_unit c @ x) = cons_fst c (scan_string x)"
  by (simp add: quote_unit_def scan_unicode_escape unescape_def ch_def)

lemma scan_surrogate:
  "is_high_surrogate c \<or> is_low_surrogate c \<Longrightarrow> scan_string (c # x) = cons_fst c (scan_string x)"
  by (auto simp: is_high_surrogate_def is_low_surrogate_def)

lemma cons_fst_Some: "cons_fst c (Some (s, r)) = Some (c # s, r)"
  by (simp add: cons_fst_def)

lemma scan_string_end: "scan_string (0x22 # rest) = Some ([], rest)"
  by simp

lemma scan_quote_chars: "scan_string (quote_chars s @ 0x22 # rest) = Some (s, rest)"
  by (induction s rule: quote_chars.induct)
     (simp_all add: scan_quote_unit scan_surrogate cons_fst_Some scan_string_end
        del: scan_string.simps(2))

lemma quote_unit_plain: "x \<in> set (quote_unit c) \<Longrightarrow> plain x"
proof -
  have a: "plain 0x5C" "plain 0x22" "plain (ch CHR ''b'')" "plain (ch CHR ''t'')"
    "plain (ch CHR ''n'')" "plain (ch CHR ''f'')" "plain (ch CHR ''r'')" "plain (ch CHR ''u'')"
    by (simp_all add: plain_ascii ch_def)
  have "unat c div 4096 < 16" using unit_bound[of c] by simp
  then have h: "plain (hex_char (unat c div 4096))" "plain (hex_char (unat c div 256 mod 16))"
    "plain (hex_char (unat c div 16 mod 16))" "plain (hex_char (unat c mod 16))"
    by (simp_all add: plain_hex_char)
  assume "x \<in> set (quote_unit c)"
  then show ?thesis
    using a h by (auto simp: quote_unit_def unicode_escape_def plain_def split: if_splits)
qed

lemma wf16_quote_chars: "wf16 (quote_chars s @ b) = wf16 b"
  by (induction s rule: quote_chars.induct)
     (simp_all add: wf16_append_plain quote_unit_plain)

section \<open>Tokens of JSON texts\<close>

lemma tokenise_string:
  "tokenise (quote_json s @ rest) = map_option ((#) (TStr s)) (tokenise rest)"
  by (simp add: quote_json_def is_ws_def ch_def scan_quote_chars)

lemma tokenise_punct:
  "tokenise (ch CHR ''{'' # x) = map_option ((#) TLBrace) (tokenise x)"
  "tokenise (ch CHR ''}'' # x) = map_option ((#) TRBrace) (tokenise x)"
  "tokenise (ch CHR ''['' # x) = map_option ((#) TLBrack) (tokenise x)"
  "tokenise (ch CHR '']'' # x) = map_option ((#) TRBrack) (tokenise x)"
  "tokenise (ch CHR '':'' # x) = map_option ((#) TColon) (tokenise x)"
  "tokenise (ch CHR '','' # x) = map_option ((#) TComma) (tokenise x)"
  by (simp_all add: is_ws_def ch_def)

lemma tokenise_null: "tokenise (js ''null'' @ x) = map_option ((#) TNull) (tokenise x)"
  by (simp add: js_def ch_def is_ws_def is_digit_def)

lemma number_to_string_hd:
  "\<exists>c t. number_to_string n 0 = c # t \<and> (c = ch CHR ''-'' \<or> is_digit c)"
proof (cases "n = 0")
  case True
  then show ?thesis by (simp add: number_to_string_zero sign_text_def digit_char_props)
next
  case False
  let ?ds = "digits_of (nat \<bar>n\<bar>)"
  have pos: "0 < nat \<bar>n\<bar>" using False by simp
  have lt: "\<forall>d \<in> set ?ds. d < 10" using digits_lt10 by blast
  show ?thesis
  proof (cases "length ?ds \<le> 21")
    case True
    obtain d r where ds: "?ds = d # r" using digits_not_Nil[of "nat \<bar>n\<bar>"] by (cases ?ds) auto
    then have "d < 10" using lt by simp
    then show ?thesis
      using False True by (simp add: number_to_string_small sign_text_def ds digit_char_props)
  next
    case large: False
    have ne: "strip_zeros ?ds \<noteq> []" and sub: "set (strip_zeros ?ds) \<subseteq> set ?ds"
      using strip_zeros_props[OF digits_not_Nil hd_digits[OF pos]] by auto
    have "hd (strip_zeros ?ds) < 10" using ne sub lt by (meson hd_in_set subsetD)
    then have dg: "is_digit (digit_char (hd (strip_zeros ?ds)))" by (rule digit_char_props(1))
    obtain x where x: "number_to_string n 0 = sign_text (n < 0) @ digit_char (hd (strip_zeros ?ds)) # x"
      using large number_to_string_large[of n] by simp
    show ?thesis
    proof (cases "n < 0")
      case True
      then show ?thesis unfolding x by (simp add: sign_text_def)
    next
      case False
      then have "number_to_string n 0 = digit_char (hd (strip_zeros ?ds)) # x"
        unfolding x by (simp add: sign_text_def)
      then show ?thesis using dg by blast
    qed
  qed
qed

lemma tokenise_number_start:
  assumes "c = ch CHR ''-'' \<or> is_digit c"
  shows "tokenise (c # x) =
     (case scan_number (c # x) of
        None \<Rightarrow> None
      | Some ((m, d), rest) \<Rightarrow>
          if length rest \<le> length x then map_option ((#) (TNum m d)) (tokenise rest) else None)"
  using assms by (auto simp: is_ws_def ch_def is_digit_def)

lemma tokenise_number:
  assumes "num_end rest"
  shows "tokenise (number_to_string n 0 @ rest) = map_option ((#) (TNum n 0)) (tokenise rest)"
proof -
  obtain c t where ct: "number_to_string n 0 = c # t" and c: "c = ch CHR ''-'' \<or> is_digit c"
    using number_to_string_hd by blast
  have "scan_number (c # t @ rest) = Some ((n, 0), rest)"
    using scan_number_to_string[OF assms, of n] by (simp add: ct)
  then show ?thesis
    by (simp add: ct tokenise_number_start[OF c] del: tokenise.simps)
qed

section \<open>The codec on session payloads\<close>

lemma plain_digit_char: "d < 10 \<Longrightarrow> plain (digit_char d)"
  by (rule plain_ascii) (simp add: digit_char_props)

lemma plain_digits: "\<forall>d \<in> set ds. d < 10 \<Longrightarrow> x \<in> set (map digit_char ds) \<Longrightarrow> plain x"
  by (auto simp: plain_digit_char)

lemma plain_punct:
  "plain (ch CHR ''{'')" "plain (ch CHR ''}'')" "plain (ch CHR ''['')" "plain (ch CHR '']'')"
  "plain (ch CHR '':'')" "plain (ch CHR '','')" "plain (ch CHR ''-'')" "plain (ch CHR ''+'')"
  "plain (ch CHR ''.'')" "plain (ch CHR ''e'')" "plain 0x22"
  by (simp_all add: plain_ascii ch_def)

lemma wf16_quote_json: "wf16 (quote_json s @ b) = wf16 b"
  using wf16_quote_chars[of s "0x22 # b"]
  by (simp add: quote_json_def wf16_Cons_plain plain_punct)

lemma wf16_null: "wf16 (js ''null'' @ b) = wf16 b"
  by (rule wf16_append_plain) (simp add: js_def ch_def plain_ascii)

lemma plain_exponent_part: "x \<in> set (exponent_part e) \<Longrightarrow> plain x"
  using digits_lt10 by (auto simp: exponent_part_def plain_punct plain_digit_char)

lemma plain_number: "x \<in> set (number_to_string n 0) \<Longrightarrow> plain x"
proof (cases "n = 0")
  case True
  assume "x \<in> set (number_to_string n 0)"
  then show ?thesis
    using True by (simp add: number_to_string_zero sign_text_def plain_digit_char)
next
  case False
  assume x: "x \<in> set (number_to_string n 0)"
  let ?ds = "digits_of (nat \<bar>n\<bar>)"
  have pos: "0 < nat \<bar>n\<bar>" using False by simp
  have lt: "\<forall>d \<in> set ?ds. d < 10" using digits_lt10 by blast
  have sg: "\<forall>y \<in> set (sign_text (n < 0)). plain y" by (simp add: sign_text_def plain_punct)
  show ?thesis
  proof (cases "length ?ds \<le> 21")
    case True
    have "x \<in> set (sign_text (n < 0)) \<union> set (map digit_char ?ds)"
      using x False True by (simp add: number_to_string_small)
    then show ?thesis using sg lt plain_digits by blast
  next
    case large: False
    let ?s = "strip_zeros ?ds"
    have ne: "?s \<noteq> []" and sub: "set ?s \<subseteq> set ?ds"
      using strip_zeros_props[OF digits_not_Nil hd_digits[OF pos]] by auto
    have s10: "\<forall>d \<in> set ?s. d < 10" using sub lt by blast
    have h: "plain (digit_char (hd ?s))" using ne s10 by (simp add: plain_digit_char)
    have t: "\<forall>y \<in> set (map digit_char (tl ?s)). plain y"
      using ne s10 by (auto simp: plain_digit_char dest: list.set_sel(2))
    have "x \<in> set (sign_text (n < 0)) \<union> {digit_char (hd ?s), ch CHR ''.''}
        \<union> set (map digit_char (tl ?s)) \<union> set (exponent_part (int (length ?ds) - 1))"
      using x large number_to_string_large[of n] by (auto split: if_splits)
    then show ?thesis using sg h t plain_exponent_part plain_punct(9) by blast
  qed
qed

lemma wf16_number: "wf16 (number_to_string n 0 @ b) = wf16 b"
  by (rule wf16_append_plain) (simp add: plain_number)

lemma stringify_user:
  "JSON_stringify (user_json None) = js ''null''"
  "JSON_stringify (user_json (Some r)) =
     ch CHR ''{'' # quote_json (js ''name'') @ ch CHR '':'' # quote_json (name r) @ [ch CHR ''}'']"
  by (simp_all add: user_json_def)

lemma stringify_payload:
  "JSON_stringify (payload_json p) =
     ch CHR ''{'' # quote_json (js ''user'') @ ch CHR '':'' # JSON_stringify (user_json (user p))
       @ ch CHR '','' # quote_json (js ''expires'') @ ch CHR '':'' # number_to_string (expires p) 0
       @ [ch CHR ''}'']"
  by (simp add: payload_json_def)

lemma wf16_payload: "wf16 (JSON_stringify (payload_json p))"
  by (cases "user p")
     (simp_all add: stringify_payload stringify_user wf16_Cons_plain plain_punct wf16_quote_json
        wf16_null wf16_number del: wf16.simps(2) wf16.simps(3))

lemma num_end_brace: "num_end [ch CHR ''}'']"
  by (simp add: num_end_def is_digit_def ch_def)

lemma no_index:
  "array_index (js ''user'') = None" "array_index (js ''expires'') = None"
  "array_index (js ''name'') = None"
  by (simp_all add: array_index_def js_def ch_def is_digit_def)

lemma key_distinct: "js ''expires'' \<noteq> js ''user''"
  by (simp add: js_def ch_def)

lemma tokenise_payload:
  "tokenise (JSON_stringify (payload_json p)) =
     Some ([TLBrace, TStr (js ''user''), TColon]
           @ (case user p of None \<Rightarrow> [TNull]
              | Some r \<Rightarrow> [TLBrace, TStr (js ''name''), TColon, TStr (name r), TRBrace])
           @ [TComma, TStr (js ''expires''), TColon, TNum (expires p) 0, TRBrace])"
proof -
  have e: "tokenise [] = Some []" by simp
  have n: "tokenise (number_to_string (expires p) 0 @ [ch CHR ''}'']) =
      Some [TNum (expires p) 0, TRBrace]"
    by (simp only: tokenise_number[OF num_end_brace] tokenise_punct e option.map)
  show ?thesis
    by (cases "user p")
       (simp_all only: stringify_payload stringify_user tokenise_punct tokenise_string
          tokenise_null n e option.map append.simps option.case append_assoc)
qed

lemma parse_payload: "JSON_parse (JSON_stringify (payload_json p)) = Some (payload_json p)"
proof -
  have "JSON_parse (JSON_stringify (payload_json p)) =
      parse_value []
        ([TLBrace, TStr (js ''user''), TColon]
           @ (case user p of None \<Rightarrow> [TNull]
              | Some r \<Rightarrow> [TLBrace, TStr (js ''name''), TColon, TStr (name r), TRBrace])
           @ [TComma, TStr (js ''expires''), TColon, TNum (expires p) 0, TRBrace])"
    by (simp only: JSON_parse_def tokenise_payload option.case)
  also have "\<dots> = Some (payload_json p)"
    by (cases "user p")
       (simp_all add: payload_json_def user_json_def obj_define_def no_index key_distinct)
  finally show ?thesis .
qed

lemma payload_text_round_trip:
  "TextDecoder_decode (TextEncoder_encode (JSON_stringify (payload_json p))) =
     JSON_stringify (payload_json p)"
proof -
  obtain t where t: "JSON_stringify (payload_json p) = ch CHR ''{'' # t"
    by (simp add: stringify_payload)
  have "unat (ch CHR ''{'') < 0x80" by (simp add: ch_def)
  moreover have "wf16 (ch CHR ''{'' # t)" using wf16_payload[of p] by (simp only: t)
  ultimately show ?thesis unfolding t by (intro decode_encode_text)
qed

lemma decrypt_encrypt:
  "decrypt sign e (encrypt sign e v) =
     (case JSON_parse (TextDecoder_decode (TextEncoder_encode (JSON_stringify v))) of
        None \<Rightarrow> JNull | Some w \<Rightarrow> w)"
  by (simp add: decrypt_three[OF encrypt_split] b64urlDecode_b64url_string)

lemma decrypt_encrypt_payload:
  "decrypt sign e (encrypt sign e (payload_json p)) = payload_json p"
  by (simp add: decrypt_encrypt payload_text_round_trip parse_payload)

section \<open>Evaluation at sample values\<close>

lemmas text_eval =
  js_def ch_def TextEncoder_encode_def lone_unit_def utf8_bytes_def is_high_surrogate_def
  is_low_surrogate_def b64url_def b64_char_def b64_alphabet_def replace_all_def Let_def

lemmas stringify_eval =
  payload_json_def user_json_def header_json_def quote_json_def quote_unit_def
  number_to_string_def unicode_escape_def hex_char_def

lemma sample_token:
  "encrypt toy_mac dev_env (payload_json \<lparr>user = None, expires = 0\<rparr>) =
     js ''eyJhbGciOiJIUzI1NiIsInR5cCI6IkpXVCJ9.eyJ1c2VyIjpudWxsLCJleHBpcmVzIjowfQ.hMQURw''"
  by (simp add: encrypt_def hmac_def secret_def dev_env_def toy_mac_def stringify_eval text_eval)

section \<open>The claims\<close>

text \<open>
  C2. For every payload and the token that \<open>encrypt\<close> produces for it, replacing any
  single character of the third, signature segment by a different character gives a string
  on which \<open>decrypt\<close> returns \<open>null\<close>. The payload ranges over all JSON values, and so
  over every \<open>SessionPayload\<close>; the MAC and the environment are arbitrary.
\<close>

theorem signature_tamper_rejected:
  assumes parts: "split (ch CHR ''.'') (encrypt sign e payload) = [h, p, s]"
    and i: "i < length s"
    and c: "c \<noteq> s ! i"
  shows "decrypt sign e (h @ js ''.'' @ p @ js ''.'' @ s[i := c]) = JNull"
proof -
  let ?H = "b64url (Str (JSON_stringify header_json))"
  let ?P = "b64url (Str (JSON_stringify payload))"
  have "[h, p, s] = [?H, ?P, b64url (Buf (hmac sign e (?H @ js ''.'' @ ?P)))]"
    using parts by (simp only: encrypt_split)
  then have h: "h = ?H" and p: "p = ?P"
    and s: "s = b64url (Buf (hmac sign e (h @ js ''.'' @ p)))"
    by (simp_all only: list.inject)
  have hd: "ch CHR ''.'' \<notin> set h" and pd: "ch CHR ''.'' \<notin> set p"
    by (simp_all add: h p dot_not_b64url)
  have sd: "ch CHR ''.'' \<notin> set s"
    by (subst s) (rule dot_not_b64url)
  have neq: "s[i := c] \<noteq> s"
  proof
    assume "s[i := c] = s"
    then have "s[i := c] ! i = s ! i" by simp
    with i c show False by simp
  qed
  show ?thesis
  proof (cases "c = ch CHR ''.''")
    case True
    have upd: "s[i := c] = take i s @ ch CHR ''.'' # drop (Suc i) s"
      using i True by (simp only: upd_conv_take_nth_drop)
    have "ch CHR ''.'' \<notin> set (take i s)"
      using sd by (meson in_set_takeD)
    then have "split (ch CHR ''.'') (s[i := c]) = take i s # split (ch CHR ''.'') (drop (Suc i) s)"
      unfolding upd by (rule split_append_sep)
    moreover have "split (ch CHR ''.'') (h @ js ''.'' @ p @ js ''.'' @ s[i := c])
        = h # p # split (ch CHR ''.'') (s[i := c])"
      using hd pd by (simp add: js_dot split_append_sep)
    ultimately have "length (split (ch CHR ''.'') (h @ js ''.'' @ p @ js ''.'' @ s[i := c]))
        = 3 + length (split (ch CHR ''.'') (drop (Suc i) s))"
      by simp
    moreover have "0 < length (split (ch CHR ''.'') (drop (Suc i) s))"
      using split_not_Nil by blast
    ultimately have "length (split (ch CHR ''.'') (h @ js ''.'' @ p @ js ''.'' @ s[i := c])) \<noteq> 3"
      by linarith
    then show ?thesis by (rule decrypt_not_three)
  next
    case False
    then have "ch CHR ''.'' \<notin> set (s[i := c])"
      using sd set_update_subset_insert[of s i c] by auto
    then have "split (ch CHR ''.'') (h @ js ''.'' @ p @ js ''.'' @ s[i := c]) = [h, p, s[i := c]]"
      using hd pd by (intro split_three)
    then show ?thesis
      using neq s by (simp add: decrypt_three)
  qed
qed

theorem signature_tamper_rejected_witness:
  "split (ch CHR ''.'') (encrypt toy_mac dev_env (payload_json \<lparr>user = None, expires = 0\<rparr>)) =
     [js ''eyJhbGciOiJIUzI1NiIsInR5cCI6IkpXVCJ9'', js ''eyJ1c2VyIjpudWxsLCJleHBpcmVzIjowfQ'',
      js ''hMQURw'']
   \<and> (2::nat) < length (js ''hMQURw'') \<and> ch CHR ''R'' \<noteq> js ''hMQURw'' ! 2
   \<and> decrypt toy_mac dev_env
        (js ''eyJhbGciOiJIUzI1NiIsInR5cCI6IkpXVCJ9'' @ js ''.''
          @ js ''eyJ1c2VyIjpudWxsLCJleHBpcmVzIjowfQ'' @ js ''.'' @ (js ''hMQURw'')[2 := ch CHR ''R''])
       = JNull"
proof -
  have parts: "split (ch CHR ''.'') (encrypt toy_mac dev_env (payload_json \<lparr>user = None, expires = 0\<rparr>)) =
     [js ''eyJhbGciOiJIUzI1NiIsInR5cCI6IkpXVCJ9'', js ''eyJ1c2VyIjpudWxsLCJleHBpcmVzIjowfQ'',
      js ''hMQURw'']"
    unfolding sample_token by (simp add: js_def ch_def)
  have i: "(2::nat) < length (js ''hMQURw'')" by (simp add: js_def)
  have c: "ch CHR ''R'' \<noteq> js ''hMQURw'' ! 2" by (simp add: js_def ch_def)
  show ?thesis
    using parts i c signature_tamper_rejected [OF parts i c] by simp
qed

end
